theory Spec2Isabelle
  imports Complex_Main "HOL-Library.Word" "HOL-Library.AList"
begin

section \<open>Memory, external calls and the task record\<close>

text \<open>
  The module is C. A pointer to an array is either the null pointer, a pointer
  whose value was never initialised (the bytes \<^verbatim>\<open>malloc\<close> returned), or a live
  block of cells. Reading or writing through the first two, or outside a block,
  is undefined behaviour in C; the model makes each of them an error value, so
  that every operation returns either an error or its result.
\<close>

datatype error = NullDeref | WildDeref | OutOfBounds | InvalidFree | UndefinedCast

datatype 'a ptr = Null | Wild | Block "'a list"

fun ptr_read :: "'a ptr \<Rightarrow> nat \<Rightarrow> error + 'a" where
  "ptr_read Null i = Inl NullDeref"
| "ptr_read Wild i = Inl WildDeref"
| "ptr_read (Block xs) i = (if i < length xs then Inr (xs ! i) else Inl OutOfBounds)"

fun ptr_write :: "'a ptr \<Rightarrow> nat \<Rightarrow> 'a \<Rightarrow> error + 'a ptr" where
  "ptr_write Null i v = Inl NullDeref"
| "ptr_write Wild i v = Inl WildDeref"
| "ptr_write (Block xs) i v = (if i < length xs then Inr (Block (xs[i := v])) else Inl OutOfBounds)"

text \<open>\<^verbatim>\<open>if( p != NULL ) free( p )\<close>: nothing for the null pointer, undefined for a
  pointer that was never allocated.\<close>

fun free_unless_null :: "'a ptr \<Rightarrow> error + unit" where
  "free_unless_null Null = Inr ()"
| "free_unless_null Wild = Inl InvalidFree"
| "free_unless_null (Block xs) = Inr ()"

fun block_len :: "'a ptr \<Rightarrow> nat option" where
  "block_len Null = None"
| "block_len Wild = None"
| "block_len (Block xs) = Some (length xs)"

text \<open>\<^verbatim>\<open>calloc( n, size )\<close>: a fresh block of \<open>n\<close> zeroed cells (allocation failure is
  not checked by the source and is not modelled).\<close>

definition calloc :: "nat \<Rightarrow> 'a \<Rightarrow> 'a ptr" where
  "calloc n zero = Block (replicate n zero)"

type_synonym TaskHandle = nat
type_synonym uInt32 = "32 word"
type_synonym khint_t = "32 word"
type_synonym float64 = real

text \<open>
  Modelled from the spec: the thread and semaphore headers (\<^verbatim>\<open>threads/threads.h\<close>,
  \<^verbatim>\<open>threads/semaphores.h\<close>) are not among the sources. A worker handle is the
  sentinel "none" (\<^verbatim>\<open>THREAD_INVALID_HANDLE\<close>) or the identity of a thread; a
  reservation slot's semaphore is a zeroed cell or \<^verbatim>\<open>Sem_Create( count, maxCount )\<close>.
\<close>

datatype Thread = THREAD_INVALID_HANDLE | ThreadId nat

datatype Semaphore = SemZero | Sem nat nat

datatype worker = AsyncReadBuffer | AsyncWriteBuffer

text \<open>The calls into the vendor layer and the thread library that change something
  outside the module, in the order they are made.\<close>

datatype ext_call =
    DAQmxLoadTask string
  | DAQmxStartTask TaskHandle
  | DAQmxStopTask TaskHandle
  | DAQmxClearTask TaskHandle
  | Thread_Start worker
  | Thread_WaitExit Thread

definition AQUISITION_BUFFER_LENGTH :: nat where
  "AQUISITION_BUFFER_LENGTH = 10"

definition SIGNAL_INPUT_CHANNEL_MAX_USES :: nat where
  "SIGNAL_INPUT_CHANNEL_MAX_USES = 5"

definition READ :: bool where
  "READ = True"

definition WRITE :: bool where
  "WRITE = False"

record SignalIOTaskData =
  handle :: TaskHandle
  threadID :: Thread
  isRunning :: bool
  mode :: bool
  channelUsesList :: "uInt32 ptr"
  channelLocksList :: "Semaphore ptr"
  channelsNumber :: uInt32
  samplesList :: "float64 ptr"
  channelValuesList :: "float64 ptr"

text \<open>\<^verbatim>\<open>SignalIOTask\<close> is a pointer to the record: \<open>None\<close> is \<^verbatim>\<open>NULL\<close>. Each task is
  referenced from its registry entry only, so the entry holds the record itself.\<close>

type_synonym SignalIOTask = "SignalIOTaskData option"

text \<open>
  The value of a registry entry is a task pointer: \<^verbatim>\<open>NULL\<close>, the address of a live
  task, or the address of a task that \<^verbatim>\<open>free\<close> has released since.
\<close>

datatype entry = Dangling | Pointer SignalIOTask

text \<open>
  Modelled from the spec: the khash header (\<^verbatim>\<open>threads/khash.h\<close>) is not among the
  sources. The registry \<^verbatim>\<open>tasksList\<close> is a mapping from task identifier (a 32-bit
  key) to task pointer, created on the first insertion and destroyed when the last
  task is removed (\<^verbatim>\<open>NULL\<close> before and after). The mapping is an association list
  with at most one entry per key: \<^verbatim>\<open>kh_get\<close> is the lookup, \<^verbatim>\<open>kh_size\<close> is the number
  of entries, and \<open>kh_set_value\<close> is the store \<^verbatim>\<open>kh_value( h, i ) = v\<close> at the key's
  entry (added by \<^verbatim>\<open>kh_put\<close> when absent).
\<close>

type_synonym table = "(khint_t \<times> entry) list"

record world =
  tasksList :: "table option"
  calls :: "ext_call list"

definition kh_get :: "table \<Rightarrow> khint_t \<Rightarrow> entry option" where
  "kh_get h k = map_of h k"

definition kh_set_value :: "table \<Rightarrow> khint_t \<Rightarrow> entry \<Rightarrow> table" where
  "kh_set_value h k v = AList.update k v h"

text \<open>
  \<^verbatim>\<open>kh_del( name, h, x )\<close> does not take a key: \<open>x\<close> is the position of a bucket, as
  \<^verbatim>\<open>kh_get\<close> and \<^verbatim>\<open>kh_put\<close> return it. The khash table is an open-addressing hash
  table with two flag bits per bucket (empty, deleted), sixteen buckets to a flag
  word: at \<^verbatim>\<open>kh_end\<close> and at an empty or deleted bucket \<^verbatim>\<open>kh_del\<close> does nothing; at a
  bucket in use it marks the bucket deleted and decrements the size, so that the
  entry stored there leaves the mapping; at a position whose flag word lies past the
  flag array it reads out of bounds. A \<open>bucket\<close> is what the table holds at a
  position, and \<open>kh_del\<close> acts on it.
\<close>

datatype bucket = BucketOutside | BucketFree | BucketOf khint_t

definition kh_del :: "table \<Rightarrow> bucket \<Rightarrow> error + table" where
  "kh_del h b =
     (case b of
        BucketOutside \<Rightarrow> Inl OutOfBounds
      | BucketFree \<Rightarrow> Inr h
      | BucketOf k \<Rightarrow> Inr (AList.delete k h))"

text \<open>
  The vendor header (\<^verbatim>\<open>NIDAQmx.h\<close>) is not among the sources either. What the
  vendor layer answers, and the string hash of khash, are inputs of the model:
  \<open>env_hash\<close> is \<^verbatim>\<open>kh_str_hash_func\<close>; \<open>env_load\<close> is the status of
  \<^verbatim>\<open>DAQmxLoadTask\<close> and the handle it stores; \<open>env_chans\<close> the status of
  \<^verbatim>\<open>DAQmxGetTaskAttribute\<close> and the channel count it stores; \<open>env_start\<close> the status
  of \<^verbatim>\<open>DAQmxStartTask\<close>; \<open>env_read_chans\<close> the value left in
  \<^verbatim>\<open>readChannelsNumber\<close> by \<^verbatim>\<open>DAQmxGetReadAttribute\<close>. In which bucket khash keeps
  an entry depends on the keys, the number of buckets and the insertions and
  deletions made so far, which the association list does not record:
  \<open>env_bucket h x\<close> is what the khash table of the mapping \<open>h\<close> holds at position
  \<open>x\<close>.
\<close>

record env =
  env_hash :: "string \<Rightarrow> khint_t"
  env_load :: "string \<Rightarrow> int \<times> TaskHandle"
  env_chans :: "TaskHandle \<Rightarrow> int \<times> uInt32"
  env_start :: "TaskHandle \<Rightarrow> int"
  env_read_chans :: "TaskHandle \<Rightarrow> uInt32"
  env_bucket :: "table \<Rightarrow> khint_t \<Rightarrow> bucket"

section \<open>Usage evaluation, unloading and loading\<close>

text \<open>The scan of \<^verbatim>\<open>CheckTask\<close>: \<^verbatim>\<open>for( channel = 0; channel < channelsNumber; channel++ )\<close>
  with the \<^verbatim>\<open>break\<close> at the first nonzero slot.\<close>

function scan_uses :: "uInt32 ptr \<Rightarrow> nat \<Rightarrow> nat \<Rightarrow> error + bool" where
  "scan_uses uses n channel =
     (if channel < n then
        (case ptr_read uses channel of
           Inl e \<Rightarrow> Inl e
         | Inr u \<Rightarrow> if u > 0 then Inr True else scan_uses uses n (Suc channel))
      else Inr False)"
  by pat_completeness auto
termination
  by (relation "measure (\<lambda>(uses, n, channel). n - channel)") auto

declare scan_uses.simps [simp del]

text \<open>\<^verbatim>\<open>CheckTask\<close> returns the task as it leaves it, the calls made so far and
  \<^verbatim>\<open>isStillUsed\<close>. It reads \<^verbatim>\<open>task->channelUsesList\<close> without a test of \<^verbatim>\<open>task\<close>.\<close>

definition CheckTask ::
  "SignalIOTask \<Rightarrow> ext_call list \<Rightarrow> error + (SignalIOTaskData \<times> ext_call list \<times> bool)" where
  "CheckTask tp cs =
     (case tp of
        None \<Rightarrow> Inl NullDeref
      | Some task \<Rightarrow>
          (case (if channelUsesList task \<noteq> Null
                 then scan_uses (channelUsesList task) (unat (channelsNumber task)) 0
                 else Inr False) of
             Inl e \<Rightarrow> Inl e
           | Inr isStillUsed \<Rightarrow>
               if \<not> isStillUsed then
                 Inr (task\<lparr>isRunning := False\<rparr>,
                      (if threadID task \<noteq> THREAD_INVALID_HANDLE
                       then cs @ [Thread_WaitExit (threadID task)] else cs),
                      isStillUsed)
               else Inr (task, cs, isStillUsed)))"

text \<open>The loop of \<^verbatim>\<open>UnloadTaskData\<close> over the locks of a Read-mode task: each
  iteration reads \<^verbatim>\<open>task->channelLocksList[ channel ]\<close> and discards it.\<close>

function discard_locks :: "Semaphore ptr \<Rightarrow> nat \<Rightarrow> nat \<Rightarrow> error + unit" where
  "discard_locks locks n channel =
     (if channel < n then
        (case ptr_read locks channel of
           Inl e \<Rightarrow> Inl e
         | Inr s \<Rightarrow> discard_locks locks n (Suc channel))
      else Inr ())"
  by pat_completeness auto
termination
  by (relation "measure (\<lambda>(locks, n, channel). n - channel)") auto

declare discard_locks.simps [simp del]

definition UnloadTaskData :: "SignalIOTask \<Rightarrow> ext_call list \<Rightarrow> error + ext_call list" where
  "UnloadTaskData tp cs =
     (case tp of
        None \<Rightarrow> Inr cs
      | Some task \<Rightarrow>
          (case (if mode task = READ
                 then discard_locks (channelLocksList task) (unat (channelsNumber task)) 0
                 else (case ptr_read (channelLocksList task) 0 of
                         Inl e \<Rightarrow> Inl e | Inr s \<Rightarrow> Inr ())) of
             Inl e \<Rightarrow> Inl e
           | Inr u0 \<Rightarrow>
               (case free_unless_null (channelUsesList task) of
                  Inl e \<Rightarrow> Inl e
                | Inr u1 \<Rightarrow>
                    (case free_unless_null (samplesList task) of
                       Inl e \<Rightarrow> Inl e
                     | Inr u2 \<Rightarrow>
                         (case free_unless_null (channelValuesList task) of
                            Inl e \<Rightarrow> Inl e
                          | Inr u3 \<Rightarrow>
                              (case free_unless_null (channelLocksList task) of
                                 Inl e \<Rightarrow> Inl e
                               | Inr u4 \<Rightarrow>
                                   Inr (cs @ [DAQmxStopTask (handle task),
                                              DAQmxClearTask (handle task)])))))))"

text \<open>The loop of \<^verbatim>\<open>LoadTaskData\<close> that stores a new semaphore in every lock cell.\<close>

function create_locks :: "Semaphore ptr \<Rightarrow> nat \<Rightarrow> nat \<Rightarrow> error + Semaphore ptr" where
  "create_locks locks n channel =
     (if channel < n then
        (case ptr_write locks channel (Sem 0 SIGNAL_INPUT_CHANNEL_MAX_USES) of
           Inl e \<Rightarrow> Inl e
         | Inr locks' \<Rightarrow> create_locks locks' n (Suc channel))
      else Inr locks)"
  by pat_completeness auto
termination
  by (relation "measure (\<lambda>(locks, n, channel). n - channel)") auto

declare create_locks.simps [simp del]

text \<open>
  \<^verbatim>\<open>LoadTaskData\<close>, in two parts. \<open>LoadTaskData_build\<close> is the body up to the test of
  \<^verbatim>\<open>loadError\<close>: it returns the task as built so far, the calls made and
  \<^verbatim>\<open>loadError\<close>. The argument \<open>raw\<close> is the content of the memory \<^verbatim>\<open>malloc\<close>
  returned; \<^verbatim>\<open>memset( newTask, 0, sizeof(SignalIOTask) )\<close> clears as many bytes as a
  pointer has, which is the first field \<^verbatim>\<open>handle\<close>, and leaves every other field as
  it was.
\<close>

definition LoadTaskData_build ::
  "env \<Rightarrow> SignalIOTaskData \<Rightarrow> string \<Rightarrow> ext_call list
     \<Rightarrow> error + (SignalIOTaskData \<times> ext_call list \<times> bool)" where
  "LoadTaskData_build ev raw taskName cs =
     (let newTask = raw\<lparr>handle := 0\<rparr>;
          t1 = newTask\<lparr>handle := snd (env_load ev taskName)\<rparr>;
          cs1 = cs @ [DAQmxLoadTask taskName]
      in if fst (env_load ev taskName) \<ge> 0 then
           (let t2 = t1\<lparr>channelsNumber := snd (env_chans ev (handle t1))\<rparr>
            in if fst (env_chans ev (handle t1)) \<ge> 0 then
                 (let n = unat (channelsNumber t2);
                      t3 = t2\<lparr>channelUsesList := calloc n 0,
                              samplesList := calloc (n * AQUISITION_BUFFER_LENGTH) 0,
                              channelValuesList := calloc n 0\<rparr>;
                      cs2 = cs1 @ [DAQmxStartTask (handle t3)]
                  in if env_start ev (handle t3) \<ge> 0 then
                       (case (if env_read_chans ev (handle t3) > 0
                              then (case create_locks (calloc n SemZero) n 0 of
                                      Inl e \<Rightarrow> Inl e
                                    | Inr locks \<Rightarrow>
                                        Inr (t3\<lparr>channelLocksList := locks, mode := READ\<rparr>))
                              else (case ptr_write (calloc 1 SemZero) 0
                                           (Sem 0 SIGNAL_INPUT_CHANNEL_MAX_USES) of
                                      Inl e \<Rightarrow> Inl e
                                    | Inr locks \<Rightarrow>
                                        Inr (t3\<lparr>channelLocksList := locks, mode := WRITE\<rparr>))) of
                          Inl e \<Rightarrow> Inl e
                        | Inr t4 \<Rightarrow>
                            Inr (t4\<lparr>isRunning := False, threadID := THREAD_INVALID_HANDLE\<rparr>,
                                 cs2, False))
                     else Inr (t3, cs2, True))
               else Inr (t2, cs1, True))
         else Inr (t1, cs1, True))"

definition LoadTaskData ::
  "env \<Rightarrow> SignalIOTaskData \<Rightarrow> string \<Rightarrow> ext_call list
     \<Rightarrow> error + (SignalIOTask \<times> ext_call list)" where
  "LoadTaskData ev raw taskName cs =
     (case LoadTaskData_build ev raw taskName cs of
        Inl e \<Rightarrow> Inl e
      | Inr (newTask, cs1, loadError) \<Rightarrow>
          if loadError then
            (case UnloadTaskData (Some newTask) cs1 of
               Inl e \<Rightarrow> Inl e
             | Inr cs2 \<Rightarrow> Inr (None, cs2))
          else Inr (Some newTask, cs1))"

section \<open>The public operations\<close>

text \<open>
  Every operation but \<^verbatim>\<open>InitDevice\<close> starts with
  \<^verbatim>\<open>kh_get( TaskInt, tasksList, (khint_t) taskID )\<close> and compares the result with
  \<^verbatim>\<open>kh_end( tasksList )\<close>, with no test of \<^verbatim>\<open>tasksList\<close>: both read the table
  through the pointer, so on the \<^verbatim>\<open>NULL\<close> table the model answers a null
  dereference. The cast keeps the low 32 bits of \<^verbatim>\<open>taskID\<close>. The statement after
  the lookup reads a field through the task pointer found (\<^verbatim>\<open>task->mode\<close>,
  \<^verbatim>\<open>task->isRunning\<close>, \<^verbatim>\<open>task->channelsNumber\<close>), which for the pointer to a released
  task is a read of freed memory.
\<close>

definition find_task :: "world \<Rightarrow> int \<Rightarrow> error + SignalIOTask option" where
  "find_task w taskID =
     (case tasksList w of
        None \<Rightarrow> Inl NullDeref
      | Some h \<Rightarrow>
          (case kh_get h (word_of_int taskID) of
             None \<Rightarrow> Inr None
           | Some Dangling \<Rightarrow> Inl WildDeref
           | Some (Pointer task) \<Rightarrow> Inr (Some task)))"

text \<open>A store through the task pointer changes the record the registry entry holds.\<close>

definition put_task :: "world \<Rightarrow> int \<Rightarrow> SignalIOTaskData \<Rightarrow> world" where
  "put_task w taskID task =
     w\<lparr>tasksList := map_option (\<lambda>h. kh_set_value h (word_of_int taskID) (Pointer (Some task)))
                           (tasksList w)\<rparr>"

text \<open>
  \<^verbatim>\<open>task->threadID = Thread_Start( worker, task, THREAD_JOINABLE )\<close>. Modelled from
  the spec, \<^verbatim>\<open>Thread_Start\<close> being declared in the missing thread header: a
  reservation starts the worker when it is not running, and the worker's first
  step (the first statement of \<^verbatim>\<open>AsyncReadBuffer\<close> and \<^verbatim>\<open>AsyncWriteBuffer\<close>) sets
  \<^verbatim>\<open>isRunning\<close>. The calls are modelled one after the other, so the new thread has
  made that step when \<^verbatim>\<open>Thread_Start\<close> returns; the handle returned is fresh. The
  iterations of the worker loops touch the sample buffer and the values only, and
  are not part of any public operation.
\<close>

definition start_worker ::
  "worker \<Rightarrow> SignalIOTaskData \<Rightarrow> ext_call list \<Rightarrow> SignalIOTaskData \<times> ext_call list" where
  "start_worker k task cs =
     (task\<lparr>threadID := ThreadId (length cs), isRunning := True\<rparr>, cs @ [Thread_Start k])"

text \<open>
  \<^verbatim>\<open>EndDevice\<close>. After \<^verbatim>\<open>UnloadTaskData\<close> the memory of the task is released and the
  entry still holds its address. The next statement is
  \<^verbatim>\<open>kh_del( TaskInt, tasksList, (khint_t) taskID )\<close>: the position handed to \<^verbatim>\<open>kh_del\<close>
  is the key itself, not \<^verbatim>\<open>taskIndex\<close>, so \<^verbatim>\<open>kh_del\<close> acts on the bucket whose number
  is the key.
\<close>

definition EndDevice :: "env \<Rightarrow> world \<Rightarrow> int \<Rightarrow> error + world" where
  "EndDevice ev w taskID =
     (case tasksList w of
        None \<Rightarrow> Inl NullDeref
      | Some h \<Rightarrow>
          (case kh_get h (word_of_int taskID) of
             None \<Rightarrow> Inr w
           | Some Dangling \<Rightarrow> Inl WildDeref
           | Some (Pointer task) \<Rightarrow>
               (case CheckTask task (calls w) of
                  Inl e \<Rightarrow> Inl e
                | Inr (task', cs, isStillUsed) \<Rightarrow>
                    if isStillUsed then Inr ((put_task w taskID task')\<lparr>calls := cs\<rparr>)
                    else
                      (case UnloadTaskData (Some task') cs of
                         Inl e \<Rightarrow> Inl e
                       | Inr cs' \<Rightarrow>
                           (let h1 = kh_set_value h (word_of_int taskID) Dangling
                            in case kh_del h1 (env_bucket ev h1 (word_of_int taskID)) of
                                 Inl e \<Rightarrow> Inl e
                               | Inr h' \<Rightarrow>
                                   Inr (w\<lparr>tasksList := (if length h' = 0 then None else Some h'),
                                          calls := cs'\<rparr>))))))"

text \<open>
  \<^verbatim>\<open>InitDevice\<close> returns the world and the \<^verbatim>\<open>long int\<close> result. \<^verbatim>\<open>kh_put\<close> answers a
  positive status exactly when the key was absent, and then adds the entry whose
  value the next line stores (\<open>kh_set_value\<close>). The key is the hash cast to \<^verbatim>\<open>int\<close>; \<^verbatim>\<open>EndDevice\<close>
  receives that \<^verbatim>\<open>int\<close>, and the result is the unsigned key as a (64-bit)
  \<^verbatim>\<open>long int\<close>.
\<close>

definition InitDevice :: "env \<Rightarrow> SignalIOTaskData \<Rightarrow> world \<Rightarrow> string \<Rightarrow> error + (world \<times> int)" where
  "InitDevice ev raw w taskName =
     (let h = (case tasksList w of None \<Rightarrow> [] | Some h0 \<Rightarrow> h0);
          taskKey = env_hash ev taskName
      in case kh_get h taskKey of
           Some v \<Rightarrow> Inr (w\<lparr>tasksList := Some h\<rparr>, uint taskKey)
         | None \<Rightarrow>
             (case LoadTaskData ev raw taskName (calls w) of
                Inl e \<Rightarrow> Inl e
              | Inr (tp, cs) \<Rightarrow>
                  (let w1 = w\<lparr>tasksList := Some (kh_set_value h taskKey (Pointer tp)),
                               calls := cs\<rparr>
                   in if tp = None then
                        (case EndDevice ev w1 (sint taskKey) of
                           Inl e \<Rightarrow> Inl e
                         | Inr w2 \<Rightarrow> Inr (w2, - 1))
                      else Inr (w1, uint taskKey))))"

definition Reset :: "world \<Rightarrow> int \<Rightarrow> error + world" where
  "Reset w taskID = Inr w"

definition HasError :: "world \<Rightarrow> int \<Rightarrow> error + (world \<times> bool)" where
  "HasError w taskID = Inr (w, False)"

definition GetMaxInputSamplesNumber :: "world \<Rightarrow> int \<Rightarrow> error + (world \<times> nat)" where
  "GetMaxInputSamplesNumber w taskID =
     (case find_task w taskID of
        Inl e \<Rightarrow> Inl e
      | Inr None \<Rightarrow> Inr (w, 0)
      | Inr (Some None) \<Rightarrow> Inl NullDeref
      | Inr (Some (Some task)) \<Rightarrow>
          if mode task = WRITE then Inr (w, 0) else Inr (w, AQUISITION_BUFFER_LENGTH))"

text \<open>
  \<^verbatim>\<open>Read\<close> returns the count and the samples \<^verbatim>\<open>memcpy\<close> puts into the caller's
  buffer: \<open>count\<close> cells of \<^verbatim>\<open>samplesList\<close> from offset \<open>channel * count\<close>, where
  \<open>count\<close> is the channel's value cast to \<^verbatim>\<open>size_t\<close>. The doubles are modelled as
  reals; the cast drops the fraction, and is undefined when what is left is
  negative or does not fit the 64 bits of \<^verbatim>\<open>size_t\<close>.
\<close>

definition Read :: "world \<Rightarrow> int \<Rightarrow> uInt32 \<Rightarrow> error + (world \<times> nat \<times> float64 list)" where
  "Read w taskID channel =
     (case find_task w taskID of
        Inl e \<Rightarrow> Inl e
      | Inr None \<Rightarrow> Inr (w, 0, [])
      | Inr (Some None) \<Rightarrow> Inl NullDeref
      | Inr (Some (Some task)) \<Rightarrow>
          if channel \<ge> channelsNumber task then Inr (w, 0, [])
          else if \<not> isRunning task then Inr (w, 0, [])
          else if mode task = WRITE then Inr (w, 0, [])
          else
            (case ptr_read (channelValuesList task) (unat channel) of
               Inl e \<Rightarrow> Inl e
             | Inr v \<Rightarrow>
                 if v \<le> - 1 \<or> 2 ^ 64 \<le> v then Inl UndefinedCast
                 else
                   (let channelAcquiredSamplesCount = nat \<lfloor>v\<rfloor>
                    in case samplesList task of
                         Null \<Rightarrow> Inl NullDeref
                       | Wild \<Rightarrow> Inl WildDeref
                       | Block ss \<Rightarrow>
                           if unat channel * channelAcquiredSamplesCount
                                + channelAcquiredSamplesCount \<le> length ss
                           then Inr (w, channelAcquiredSamplesCount,
                                     take channelAcquiredSamplesCount
                                       (drop (unat channel * channelAcquiredSamplesCount) ss))
                           else Inl OutOfBounds)))"

definition CheckInputChannel :: "world \<Rightarrow> int \<Rightarrow> uInt32 \<Rightarrow> error + (world \<times> bool)" where
  "CheckInputChannel w taskID channel =
     (case find_task w taskID of
        Inl e \<Rightarrow> Inl e
      | Inr None \<Rightarrow> Inr (w, False)
      | Inr (Some None) \<Rightarrow> Inl NullDeref
      | Inr (Some (Some task)) \<Rightarrow>
          if mode task = WRITE then Inr (w, False)
          else if channel > channelsNumber task then Inr (w, False)
          else
            (case ptr_read (channelUsesList task) (unat channel) of
               Inl e \<Rightarrow> Inl e
             | Inr u \<Rightarrow>
                 if unat u \<ge> SIGNAL_INPUT_CHANNEL_MAX_USES then Inr (w, False)
                 else
                   (case ptr_write (channelUsesList task) (unat channel) (u + 1) of
                      Inl e \<Rightarrow> Inl e
                    | Inr uses \<Rightarrow>
                        (let task1 = task\<lparr>channelUsesList := uses\<rparr>;
                             (task2, cs) = (if \<not> isRunning task1
                                            then start_worker AsyncReadBuffer task1 (calls w)
                                            else (task1, calls w))
                         in Inr ((put_task w taskID task2)\<lparr>calls := cs\<rparr>, True)))))"

definition Write :: "world \<Rightarrow> int \<Rightarrow> uInt32 \<Rightarrow> float64 \<Rightarrow> error + (world \<times> bool)" where
  "Write w taskID channel v =
     (case find_task w taskID of
        Inl e \<Rightarrow> Inl e
      | Inr None \<Rightarrow> Inr (w, False)
      | Inr (Some None) \<Rightarrow> Inl NullDeref
      | Inr (Some (Some task)) \<Rightarrow>
          if \<not> isRunning task then Inr (w, False)
          else if mode task = READ then Inr (w, False)
          else if channel > channelsNumber task then Inr (w, False)
          else
            (case ptr_write (channelValuesList task) (unat channel) v of
               Inl e \<Rightarrow> Inl e
             | Inr vals \<Rightarrow> Inr (put_task w taskID (task\<lparr>channelValuesList := vals\<rparr>), True)))"

definition AcquireOutputChannel :: "world \<Rightarrow> int \<Rightarrow> uInt32 \<Rightarrow> error + (world \<times> bool)" where
  "AcquireOutputChannel w taskID channel =
     (case find_task w taskID of
        Inl e \<Rightarrow> Inl e
      | Inr None \<Rightarrow> Inr (w, False)
      | Inr (Some None) \<Rightarrow> Inl NullDeref
      | Inr (Some (Some task)) \<Rightarrow>
          if mode task = READ then Inr (w, False)
          else if channel > channelsNumber task then Inr (w, False)
          else
            (case ptr_read (channelUsesList task) (unat channel) of
               Inl e \<Rightarrow> Inl e
             | Inr u \<Rightarrow>
                 if u = 1 then Inr (w, False)
                 else
                   (case ptr_write (channelUsesList task) (unat channel) 1 of
                      Inl e \<Rightarrow> Inl e
                    | Inr uses \<Rightarrow>
                        (let task1 = task\<lparr>channelUsesList := uses\<rparr>;
                             (task2, cs) = (if \<not> isRunning task1
                                            then start_worker AsyncWriteBuffer task1 (calls w)
                                            else (task1, calls w))
                         in Inr ((put_task w taskID task2)\<lparr>calls := cs\<rparr>, True)))))"

definition ReleaseOutputChannel :: "world \<Rightarrow> int \<Rightarrow> uInt32 \<Rightarrow> error + world" where
  "ReleaseOutputChannel w taskID channel =
     (case find_task w taskID of
        Inl e \<Rightarrow> Inl e
      | Inr None \<Rightarrow> Inr w
      | Inr (Some None) \<Rightarrow> Inl NullDeref
      | Inr (Some (Some task)) \<Rightarrow>
          if \<not> isRunning task then Inr w
          else if channel > channelsNumber task then Inr w
          else
            (case ptr_write (channelUsesList task) (unat channel) 0 of
               Inl e \<Rightarrow> Inl e
             | Inr uses \<Rightarrow>
                 (case CheckTask (Some (task\<lparr>channelUsesList := uses\<rparr>)) (calls w) of
                    Inl e \<Rightarrow> Inl e
                  | Inr (task', cs, isStillUsed) \<Rightarrow>
                      Inr ((put_task w taskID task')\<lparr>calls := cs\<rparr>))))"

section \<open>Sequences of calls, and what the statements below speak about\<close>

text \<open>The task registered under an identifier, if any (\<open>Some None\<close> is an entry that
  holds no live task: \<^verbatim>\<open>NULL\<close>, or the address of a released task).\<close>

definition lookup_task :: "world \<Rightarrow> int \<Rightarrow> SignalIOTask option" where
  "lookup_task w taskID =
     (case tasksList w of
        None \<Rightarrow> None
      | Some h \<Rightarrow>
          (case kh_get h (word_of_int taskID) of
             None \<Rightarrow> None
           | Some Dangling \<Rightarrow> Some None
           | Some (Pointer task) \<Rightarrow> Some task))"

text \<open>The arrays of a task as a successful \<^verbatim>\<open>LoadTaskData\<close> allocates them: one use
  count and one value per channel, the sample buffer, and one lock per channel in
  Read mode or a single lock in Write mode.\<close>

definition task_allocated :: "SignalIOTaskData \<Rightarrow> bool" where
  "task_allocated t \<longleftrightarrow>
     block_len (channelUsesList t) = Some (unat (channelsNumber t)) \<and>
     block_len (channelValuesList t) = Some (unat (channelsNumber t)) \<and>
     block_len (samplesList t) = Some (unat (channelsNumber t) * AQUISITION_BUFFER_LENGTH) \<and>
     block_len (channelLocksList t) = Some (if mode t = READ then unat (channelsNumber t) else 1)"

text \<open>No entry of the registry holds \<^verbatim>\<open>NULL\<close>, and the arrays of every live task are
  allocated.\<close>

definition world_ok :: "world \<Rightarrow> bool" where
  "world_ok w =
     (case tasksList w of
        None \<Rightarrow> True
      | Some h \<Rightarrow>
          list_all (\<lambda>e. case snd e of
                          Dangling \<Rightarrow> True
                        | Pointer None \<Rightarrow> False
                        | Pointer (Some t) \<Rightarrow> task_allocated t) h)"

text \<open>\<open>n\<close> calls of \<^verbatim>\<open>CheckInputChannel\<close> in a row on one channel, with their results.\<close>

fun CheckInputChannel_times ::
  "nat \<Rightarrow> world \<Rightarrow> int \<Rightarrow> uInt32 \<Rightarrow> error + (world \<times> bool list)" where
  "CheckInputChannel_times 0 w taskID channel = Inr (w, [])"
| "CheckInputChannel_times (Suc n) w taskID channel =
     (case CheckInputChannel w taskID channel of
        Inl e \<Rightarrow> Inl e
      | Inr (w1, r) \<Rightarrow>
          (case CheckInputChannel_times n w1 taskID channel of
             Inl e \<Rightarrow> Inl e
           | Inr (w2, rs) \<Rightarrow> Inr (w2, r # rs)))"

text \<open>The public operations as values, to speak about arbitrary sequences of calls.\<close>

datatype call =
    CallInitDevice env SignalIOTaskData string
  | CallEndDevice env int
  | CallReset int
  | CallHasError int
  | CallGetMaxInputSamplesNumber int
  | CallRead int uInt32
  | CallCheckInputChannel int uInt32
  | CallWrite int uInt32 float64
  | CallAcquireOutputChannel int uInt32
  | CallReleaseOutputChannel int uInt32

fun exec :: "world \<Rightarrow> call \<Rightarrow> error + world" where
  "exec w (CallInitDevice ev raw taskName) = map_sum id fst (InitDevice ev raw w taskName)"
| "exec w (CallEndDevice ev taskID) = EndDevice ev w taskID"
| "exec w (CallReset taskID) = Reset w taskID"
| "exec w (CallHasError taskID) = map_sum id fst (HasError w taskID)"
| "exec w (CallGetMaxInputSamplesNumber taskID) = map_sum id fst (GetMaxInputSamplesNumber w taskID)"
| "exec w (CallRead taskID channel) = map_sum id fst (Read w taskID channel)"
| "exec w (CallCheckInputChannel taskID channel) = map_sum id fst (CheckInputChannel w taskID channel)"
| "exec w (CallWrite taskID channel v) = map_sum id fst (Write w taskID channel v)"
| "exec w (CallAcquireOutputChannel taskID channel) =
     map_sum id fst (AcquireOutputChannel w taskID channel)"
| "exec w (CallReleaseOutputChannel taskID channel) = ReleaseOutputChannel w taskID channel"

fun run :: "world \<Rightarrow> call list \<Rightarrow> error + world" where
  "run w [] = Inr w"
| "run w (c # cs) = (case exec w c of Inl e \<Rightarrow> Inl e | Inr w1 \<Rightarrow> run w1 cs)"

text \<open>The calls of \<^verbatim>\<open>ReleaseOutputChannel\<close> on an identifier's key.\<close>

fun releases :: "int \<Rightarrow> call \<Rightarrow> bool" where
  "releases taskID (CallReleaseOutputChannel j channel) =
     ((word_of_int j :: khint_t) = word_of_int taskID)"
| "releases taskID c = False"

text \<open>A live task is registered under the identifier before, between and after the
  calls of a sequence, each of which returns.\<close>

definition registered :: "world \<Rightarrow> int \<Rightarrow> bool" where
  "registered w taskID = (case lookup_task w taskID of Some (Some t) \<Rightarrow> True | _ \<Rightarrow> False)"

fun stays_registered :: "int \<Rightarrow> world \<Rightarrow> call list \<Rightarrow> bool" where
  "stays_registered taskID w [] = registered w taskID"
| "stays_registered taskID w (c # cs) =
     (registered w taskID \<and>
      (case exec w c of Inl e \<Rightarrow> False | Inr w1 \<Rightarrow> stays_registered taskID w1 cs))"

subsection \<open>Concrete inputs\<close>

text \<open>
  The khash layout of a mapping built by at most three insertions into a new table,
  in the order of the list, with no deletion: four buckets and one flag word, whose
  sixteen flags start as "empty"; the hash of a 32-bit key is the key, a key \<open>k\<close>
  goes to bucket \<open>k mod 4\<close> when that is empty and else to the first empty bucket of
  the probe sequence (steps 1, 2, 3).
\<close>

fun probe :: "khint_t option list \<Rightarrow> nat \<Rightarrow> nat \<Rightarrow> nat \<Rightarrow> nat" where
  "probe bs i step 0 = i"
| "probe bs i step (Suc fuel) =
     (if bs ! i = None then i else probe bs ((i + Suc step) mod 4) (Suc step) fuel)"

definition klib_put :: "khint_t option list \<Rightarrow> khint_t \<Rightarrow> khint_t option list" where
  "klib_put bs k = bs[probe bs (unat k mod 4) 0 (Suc (Suc (Suc (Suc 0)))) := Some k]"

definition klib_buckets :: "table \<Rightarrow> khint_t option list" where
  "klib_buckets h = foldl klib_put [None, None, None, None] (map fst h)"

definition klib_bucket :: "table \<Rightarrow> khint_t \<Rightarrow> bucket" where
  "klib_bucket h x =
     (if 16 \<le> unat x then BucketOutside
      else if 4 \<le> unat x then BucketFree
      else (case klib_buckets h ! unat x of None \<Rightarrow> BucketFree | Some k \<Rightarrow> BucketOf k))"

text \<open>The world before the first call, zeroed memory, and three vendor layers: one
  whose tasks have two input channels, one whose tasks have three output channels
  and no input channel, and one that knows no task.\<close>

definition world0 :: world where
  "world0 = \<lparr>tasksList = None, calls = []\<rparr>"

definition raw0 :: SignalIOTaskData where
  "raw0 = \<lparr>handle = 0, threadID = THREAD_INVALID_HANDLE, isRunning = False, mode = False,
            channelUsesList = Null, channelLocksList = Null, channelsNumber = 0,
            samplesList = Null, channelValuesList = Null\<rparr>"

definition ev_in :: env where
  "ev_in = \<lparr>env_hash = (\<lambda>s. of_nat (length s)), env_load = (\<lambda>s. (0, 1)),
             env_chans = (\<lambda>h. (0, 2)), env_start = (\<lambda>h. 0), env_read_chans = (\<lambda>h. 2),
             env_bucket = klib_bucket\<rparr>"

definition ev_out :: env where
  "ev_out = \<lparr>env_hash = (\<lambda>s. of_nat (length s)), env_load = (\<lambda>s. (0, 1)),
              env_chans = (\<lambda>h. (0, 3)), env_start = (\<lambda>h. 0), env_read_chans = (\<lambda>h. 0),
              env_bucket = klib_bucket\<rparr>"

definition ev_absent :: env where
  "ev_absent = \<lparr>env_hash = (\<lambda>s. of_nat (length s)), env_load = (\<lambda>s. (- 1, 0)),
                 env_chans = (\<lambda>h. (- 1, 0)), env_start = (\<lambda>h. - 1), env_read_chans = (\<lambda>h. 0),
                 env_bucket = klib_bucket\<rparr>"

text \<open>A vendor layer whose tasks load and have two channels but do not start.\<close>

definition ev_unstartable :: env where
  "ev_unstartable = \<lparr>env_hash = (\<lambda>s. of_nat (length s)), env_load = (\<lambda>s. (0, 1)),
                      env_chans = (\<lambda>h. (0, 2)), env_start = (\<lambda>h. - 1),
                      env_read_chans = (\<lambda>h. 0), env_bucket = klib_bucket\<rparr>"

text \<open>The Read-mode task \<^verbatim>\<open>InitDevice\<close> builds from \<open>ev_in\<close>, and the same task with
  given use counts and a running worker.\<close>

definition task_in :: SignalIOTaskData where
  "task_in = \<lparr>handle = 1, threadID = THREAD_INVALID_HANDLE, isRunning = False, mode = READ,
               channelUsesList = Block [0, 0],
               channelLocksList = Block [Sem 0 5, Sem 0 5], channelsNumber = 2,
               samplesList = Block (replicate 20 0), channelValuesList = Block [0, 0]\<rparr>"

definition task_in_running :: "uInt32 list \<Rightarrow> SignalIOTaskData" where
  "task_in_running us = task_in\<lparr>threadID := ThreadId 2, isRunning := True,
                                 channelUsesList := Block us\<rparr>"

definition task_out :: SignalIOTaskData where
  "task_out = \<lparr>handle = 1, threadID = THREAD_INVALID_HANDLE, isRunning = False, mode = WRITE,
                channelUsesList = Block [0, 0, 0],
                channelLocksList = Block [Sem 0 5], channelsNumber = 3,
                samplesList = Block (replicate 30 0), channelValuesList = Block [0, 0, 0]\<rparr>"

definition task_out_running :: "uInt32 list \<Rightarrow> SignalIOTaskData" where
  "task_out_running us = task_out\<lparr>threadID := ThreadId 2, isRunning := True,
                                   channelUsesList := Block us\<rparr>"

definition world_of :: "int \<Rightarrow> SignalIOTaskData \<Rightarrow> ext_call list \<Rightarrow> world" where
  "world_of taskID t cs =
     \<lparr>tasksList = Some [(word_of_int taskID, Pointer (Some t))], calls = cs\<rparr>"

section \<open>Lemmas on the registry\<close>

lemma lookup_task_SomeD:
  "lookup_task w taskID = Some (Some t) \<Longrightarrow>
     \<exists>h. tasksList w = Some h \<and> kh_get h (word_of_int taskID) = Some (Pointer (Some t))"
  by (auto simp: lookup_task_def split: option.splits entry.splits)

lemma lookup_task_tableD:
  "lookup_task w taskID = Some tp \<Longrightarrow> \<exists>h. tasksList w = Some h"
  by (auto simp: lookup_task_def split: option.splits)

lemma find_task_lookup:
  "lookup_task w taskID = Some (Some t) \<Longrightarrow> find_task w taskID = Inr (Some (Some t))"
  by (auto simp: lookup_task_def find_task_def split: option.splits entry.splits)

lemma put_task_same:
  "lookup_task w taskID = Some (Some t) \<Longrightarrow> put_task w taskID t = w"
  by (auto simp: lookup_task_def put_task_def kh_get_def kh_set_value_def AList.update_triv
      split: option.splits entry.splits)

lemma lookup_put_task:
  "lookup_task w taskID = Some tp \<Longrightarrow> lookup_task (put_task w taskID t) taskID = Some (Some t)"
  by (auto simp: lookup_task_def put_task_def kh_get_def kh_set_value_def AList.update_conv'
      split: option.splits)

lemma lookup_put_task_other:
  "(word_of_int i :: khint_t) \<noteq> word_of_int taskID \<Longrightarrow>
     lookup_task (put_task w taskID t) i = lookup_task w i"
  by (cases "tasksList w")
    (simp_all add: lookup_task_def put_task_def kh_get_def kh_set_value_def AList.update_conv')

lemma lookup_task_calls [simp]: "lookup_task (w\<lparr>calls := cs\<rparr>) i = lookup_task w i"
  by (simp add: lookup_task_def)

lemma put_task_twice [simp]: "put_task (put_task w i t) i t' = put_task w i t'"
  by (cases "tasksList w") (auto simp: put_task_def kh_set_value_def)

lemma lookup_world_of [simp]: "lookup_task (world_of i t cs) i = Some (Some t)"
  by (simp add: lookup_task_def world_of_def kh_get_def)

section \<open>Mode mismatch\<close>

text \<open>
  Claim C9. For a registered task and every channel index: \<^verbatim>\<open>Read\<close> on a Write-mode
  task returns 0 and \<^verbatim>\<open>Write\<close> on a Read-mode task returns false, and the world
  (registry, task and calls made) is the one before the call.
\<close>

theorem mode_mismatch_fails:
  assumes "lookup_task w taskID = Some (Some t)"
  shows "(mode t = WRITE \<longrightarrow> Read w taskID channel = Inr (w, 0, [])) \<and>
         (mode t = READ \<longrightarrow> Write w taskID channel v = Inr (w, False))"
  using find_task_lookup [OF assms] by (simp add: Read_def Write_def)

theorem mode_mismatch_fails_witness:
  "lookup_task (world_of 5 (task_out_running [0, 0, 1]) []) 5
     = Some (Some (task_out_running [0, 0, 1])) \<and>
   mode (task_out_running [0, 0, 1]) = WRITE \<and>
   Read (world_of 5 (task_out_running [0, 0, 1]) []) 5 2
     = Inr (world_of 5 (task_out_running [0, 0, 1]) [], 0, []) \<and>
   lookup_task (world_of 5 (task_in_running [1, 0]) []) 5
     = Some (Some (task_in_running [1, 0])) \<and>
   mode (task_in_running [1, 0]) = READ \<and>
   Write (world_of 5 (task_in_running [1, 0]) []) 5 0 (7 / 2)
     = Inr (world_of 5 (task_in_running [1, 0]) [], False)"
proof -
  have a: "lookup_task (world_of 5 (task_out_running [0, 0, 1]) []) 5
             = Some (Some (task_out_running [0, 0, 1]))"
    by simp
  have b: "lookup_task (world_of 5 (task_in_running [1, 0]) []) 5
             = Some (Some (task_in_running [1, 0]))"
    by simp
  have c: "mode (task_out_running [0, 0, 1]) = WRITE"
    by (simp add: task_out_running_def task_out_def)
  have d: "mode (task_in_running [1, 0]) = READ"
    by (simp add: task_in_running_def task_in_def)
  show ?thesis
    using mode_mismatch_fails [OF a, of 2] mode_mismatch_fails [OF b, of 0 "7 / 2"] a b c d
    by (simp add: READ_def WRITE_def)
qed

section \<open>Lemmas on the loops, the usage evaluation and unloading\<close>

lemma scan_uses_Block:
  "n \<le> length us \<Longrightarrow> scan_uses (Block us) n k = Inr (\<exists>c. k \<le> c \<and> c < n \<and> us ! c \<noteq> 0)"
proof (induction "Block us" n k rule: scan_uses.induct)
  case (1 n channel)
  show ?case
  proof (cases "channel < n")
    case False
    then show ?thesis by (subst scan_uses.simps) auto
  next
    case True
    show ?thesis
    proof (cases "us ! channel = 0")
      case z: True
      have "scan_uses (Block us) n (Suc channel) = Inr (\<exists>c. Suc channel \<le> c \<and> c < n \<and> us ! c \<noteq> 0)"
        using 1 True z by (simp add: word_greater_zero_iff)
      moreover have "(\<exists>c. Suc channel \<le> c \<and> c < n \<and> us ! c \<noteq> 0) = (\<exists>c. channel \<le> c \<and> c < n \<and> us ! c \<noteq> 0)"
        using z by (metis Suc_leD Suc_leI le_neq_implies_less)
      ultimately show ?thesis using True z 1(2)
        by (subst scan_uses.simps) (simp add: word_greater_zero_iff)
    next
      case nz: False
      then show ?thesis using True 1(2)
        by (subst scan_uses.simps) (auto simp add: word_greater_zero_iff)
    qed
  qed
qed

lemma scan_uses_all:
  "scan_uses (Block us) (length us) 0 = Inr (\<exists>u\<in>set us. u \<noteq> 0)"
  by (simp add: scan_uses_Block in_set_conv_nth Bex_def) metis

lemma discard_locks_Block:
  "n \<le> length ls \<Longrightarrow> discard_locks (Block ls) n k = Inr ()"
proof (induction "Block ls" n k rule: discard_locks.induct)
  case (1 n channel)
  then show ?case by (subst discard_locks.simps) auto
qed

lemma block_len_SomeD: "block_len p = Some n \<Longrightarrow> \<exists>xs. p = Block xs \<and> length xs = n"
  by (cases p) auto

lemma CheckTask_Block:
  assumes "channelUsesList t = Block us" "length us = unat (channelsNumber t)"
  shows "CheckTask (Some t) cs =
           (if \<exists>u\<in>set us. u \<noteq> 0 then Inr (t, cs, True)
            else Inr (t\<lparr>isRunning := False\<rparr>,
                      (if threadID t \<noteq> THREAD_INVALID_HANDLE
                       then cs @ [Thread_WaitExit (threadID t)] else cs), False))"
  using assms scan_uses_all [of us] by (simp add: CheckTask_def)

lemma UnloadTaskData_allocated:
  assumes "task_allocated t"
  shows "UnloadTaskData (Some t) cs = Inr (cs @ [DAQmxStopTask (handle t), DAQmxClearTask (handle t)])"
proof -
  obtain us where p1: "channelUsesList t = Block us"
    using assms block_len_SomeD unfolding task_allocated_def by blast
  obtain vs where p2: "channelValuesList t = Block vs"
    using assms block_len_SomeD unfolding task_allocated_def by blast
  obtain ss where p3: "samplesList t = Block ss"
    using assms block_len_SomeD unfolding task_allocated_def by blast
  obtain ls where p4: "channelLocksList t = Block ls"
    and p5: "length ls = (if mode t = READ then unat (channelsNumber t) else 1)"
    using assms block_len_SomeD unfolding task_allocated_def by blast
  note p = p1 p2 p3 p4 p5
  show ?thesis
  proof (cases "mode t = READ")
    case True
    then have "discard_locks (Block ls) (unat (channelsNumber t)) 0 = Inr ()"
      using p(5) by (simp add: discard_locks_Block)
    then show ?thesis using p True by (simp add: UnloadTaskData_def)
  next
    case False
    then have "ptr_read (Block ls) 0 = Inr (ls ! 0)" using p(5) by simp
    then show ?thesis using p False by (simp add: UnloadTaskData_def)
  qed
qed

lemma task_allocated_isRunning [simp]:
  "task_allocated (t\<lparr>isRunning := b\<rparr>) = task_allocated t"
  by (simp add: task_allocated_def)

lemma lookup_task_table:
  "lookup_task (w\<lparr>tasksList := (if length h = 0 then None else Some h), calls := cs\<rparr>) i
     = (case map_of h (word_of_int i) of
          None \<Rightarrow> None
        | Some Dangling \<Rightarrow> Some None
        | Some (Pointer p) \<Rightarrow> Some p)"
  by (cases h) (simp_all add: lookup_task_def kh_get_def)

lemma calls_world_of [simp]: "calls (world_of i t cs) = cs"
  by (simp add: world_of_def)

lemma put_task_world_of [simp]: "put_task (world_of i t cs) i t' = world_of i t' cs"
  by (simp add: put_task_def world_of_def kh_set_value_def)

lemma world_of_calls [simp]: "(world_of i t cs)\<lparr>calls := cs'\<rparr> = world_of i t cs'"
  by (simp add: world_of_def)

lemma unat_lt_length:
  "task_allocated t \<Longrightarrow> channelUsesList t = Block us \<Longrightarrow> channel < channelsNumber t
     \<Longrightarrow> unat channel < length us"
  by (simp add: task_allocated_def word_less_nat_alt)

section \<open>Reserving an output channel twice\<close>

text \<open>
  Claim C8. For a registered Write-mode task and a channel below its channel count:
  whatever the first \<^verbatim>\<open>AcquireOutputChannel\<close> answers (true exactly when the slot was
  not 1), a second call on the same channel with no release in between returns
  false, changes nothing, and the slot is 1.
\<close>

theorem AcquireOutputChannel_twice:
  assumes "lookup_task w taskID = Some (Some t)" and "mode t = WRITE" and "task_allocated t"
    and "channel < channelsNumber t" and "channelUsesList t = Block us"
  shows "\<exists>w1 t1. AcquireOutputChannel w taskID channel = Inr (w1, us ! unat channel \<noteq> 1) \<and>
                 AcquireOutputChannel w1 taskID channel = Inr (w1, False) \<and>
                 lookup_task w1 taskID = Some (Some t1) \<and>
                 channelUsesList t1 = Block (us[unat channel := 1])"
proof -
  have c: "unat channel < length us"
    using assms(3,5,4) by (rule unat_lt_length)
  have le: "\<not> channel > channelsNumber t"
    using assms(4) by simp
  note f = find_task_lookup [OF assms(1)]
  show ?thesis
  proof (cases "us ! unat channel = 1")
    case True
    have "AcquireOutputChannel w taskID channel = Inr (w, False)"
      using f assms(2,5) c le True
      by (simp add: AcquireOutputChannel_def READ_def WRITE_def)
    moreover have "us[unat channel := 1] = us"
      using True by (metis list_update_id)
    ultimately show ?thesis using assms(1,5) True by auto
  next
    case False
    define t1 where "t1 = t\<lparr>channelUsesList := Block (us[unat channel := 1])\<rparr>"
    define t2 where "t2 = (if isRunning t then t1 else fst (start_worker AsyncWriteBuffer t1 (calls w)))"
    define cs where "cs = (if isRunning t then calls w else snd (start_worker AsyncWriteBuffer t1 (calls w)))"
    define w1 where "w1 = (put_task w taskID t2)\<lparr>calls := cs\<rparr>"
    have first: "AcquireOutputChannel w taskID channel = Inr (w1, True)"
      using f assms(2,5) c le False
      by (simp add: AcquireOutputChannel_def READ_def WRITE_def w1_def t2_def t1_def cs_def
          start_worker_def)
    have l1: "lookup_task w1 taskID = Some (Some t2)"
      using lookup_put_task [OF assms(1)] by (simp add: w1_def)
    have t2: "mode t2 = WRITE" "channelsNumber t2 = channelsNumber t"
      "channelUsesList t2 = Block (us[unat channel := 1])"
      using assms(2) by (simp_all add: t2_def t1_def start_worker_def)
    have second: "AcquireOutputChannel w1 taskID channel = Inr (w1, False)"
      using find_task_lookup [OF l1] t2 c le
      by (simp add: AcquireOutputChannel_def READ_def WRITE_def)
    show ?thesis using first second l1 t2 False by auto
  qed
qed

theorem AcquireOutputChannel_twice_witness:
  "lookup_task (world_of 5 task_out []) 5 = Some (Some task_out) \<and>
   mode task_out = WRITE \<and> task_allocated task_out \<and> (2::uInt32) < channelsNumber task_out \<and>
   (\<exists>w1 t1. AcquireOutputChannel (world_of 5 task_out []) 5 2 = Inr (w1, True) \<and>
            AcquireOutputChannel w1 5 2 = Inr (w1, False) \<and>
            lookup_task w1 5 = Some (Some t1) \<and> channelUsesList t1 = Block [0, 0, 1])"
proof -
  have a: "mode task_out = WRITE" by (simp add: task_out_def)
  have b: "task_allocated task_out"
    by (simp add: task_allocated_def task_out_def READ_def WRITE_def AQUISITION_BUFFER_LENGTH_def)
  have c: "(2::uInt32) < channelsNumber task_out" by (simp add: task_out_def)
  have d: "channelUsesList task_out = Block [0, 0, 0]" by (simp add: task_out_def)
  show ?thesis
    using AcquireOutputChannel_twice [OF lookup_world_of a b c d, of 5 "[]"] a b c
    by simp
qed

section \<open>Releasing a channel of a Read-mode task\<close>

text \<open>
  Claim C10. \<^verbatim>\<open>ReleaseOutputChannel\<close> has no test of the mode. For a registered
  Read-mode task whose worker is running and a channel below the channel count, it
  stores 0 in that channel's use count and evaluates the usage: when every other
  use count is zero it clears \<^verbatim>\<open>isRunning\<close> and waits for the worker thread,
  otherwise the worker keeps running.
\<close>

theorem ReleaseOutputChannel_ignores_mode:
  assumes "lookup_task w taskID = Some (Some t)" and "mode t = READ" and "isRunning t"
    and "task_allocated t" and "channel < channelsNumber t" and "channelUsesList t = Block us"
  shows "ReleaseOutputChannel w taskID channel =
           Inr ((put_task w taskID
                   (t\<lparr>channelUsesList := Block (us[unat channel := 0]),
                      isRunning := (\<exists>u\<in>set (us[unat channel := 0]). u \<noteq> 0)\<rparr>))
                \<lparr>calls := (if (\<exists>u\<in>set (us[unat channel := 0]). u \<noteq> 0)
                                \<or> threadID t = THREAD_INVALID_HANDLE
                            then calls w else calls w @ [Thread_WaitExit (threadID t)])\<rparr>)"
proof -
  have c: "unat channel < length us"
    using assms(4,6,5) by (rule unat_lt_length)
  have le: "\<not> channel > channelsNumber t"
    using assms(5) by simp
  have len: "length us = unat (channelsNumber t)"
    using assms(4,6) by (simp add: task_allocated_def)
  let ?t1 = "t\<lparr>channelUsesList := Block (us[unat channel := 0])\<rparr>"
  have ct: "CheckTask (Some ?t1) (calls w) =
           (if \<exists>u\<in>set (us[unat channel := 0]). u \<noteq> 0 then Inr (?t1, calls w, True)
            else Inr (?t1\<lparr>isRunning := False\<rparr>,
                      (if threadID ?t1 \<noteq> THREAD_INVALID_HANDLE
                       then calls w @ [Thread_WaitExit (threadID ?t1)] else calls w), False))"
    by (rule CheckTask_Block) (simp_all add: len)
  show ?thesis
  proof (cases "\<exists>u\<in>set (us[unat channel := 0]). u \<noteq> 0")
    case True
    have eq: "t\<lparr>channelUsesList := Block (us[unat channel := 0]), isRunning := True\<rparr> = ?t1"
      using assms(3) by (cases t) simp
    show ?thesis
      using find_task_lookup [OF assms(1)] assms(3,6) c le ct True
      by (simp add: ReleaseOutputChannel_def eq)
  next
    case False
    then show ?thesis
      using find_task_lookup [OF assms(1)] assms(3,6) c le ct
      by (simp add: ReleaseOutputChannel_def)
  qed
qed

theorem ReleaseOutputChannel_ignores_mode_witness:
  "lookup_task (world_of 5 (task_in_running [5, 0]) []) 5 = Some (Some (task_in_running [5, 0])) \<and>
   mode (task_in_running [5, 0]) = READ \<and> isRunning (task_in_running [5, 0]) \<and>
   task_allocated (task_in_running [5, 0]) \<and>
   (0::uInt32) < channelsNumber (task_in_running [5, 0]) \<and>
   ReleaseOutputChannel (world_of 5 (task_in_running [5, 0]) []) 5 0
     = Inr (world_of 5 ((task_in_running [0, 0])\<lparr>isRunning := False\<rparr>)
              [Thread_WaitExit (ThreadId 2)])"
proof -
  have a: "mode (task_in_running [5, 0]) = READ" "isRunning (task_in_running [5, 0])"
    by (simp_all add: task_in_running_def task_in_def)
  have b: "task_allocated (task_in_running [5, 0])"
    by (simp add: task_allocated_def task_in_running_def task_in_def READ_def
        AQUISITION_BUFFER_LENGTH_def)
  have c: "(0::uInt32) < channelsNumber (task_in_running [5, 0])"
    by (simp add: task_in_running_def task_in_def)
  have d: "channelUsesList (task_in_running [5, 0]) = Block [5, 0]"
    by (simp add: task_in_running_def)
  have e: "threadID (task_in_running [5, 0]) = ThreadId 2"
    by (simp add: task_in_running_def)
  have f: "(task_in_running [5, 0])\<lparr>channelUsesList := Block [0, 0], isRunning := False\<rparr>
             = (task_in_running [0, 0])\<lparr>isRunning := False\<rparr>"
    by (simp add: task_in_running_def)
  show ?thesis
    using ReleaseOutputChannel_ignores_mode [OF lookup_world_of a b c d, of 5 "[]"] a b c
    by (simp add: e f)
qed

section \<open>Saturation of an input channel\<close>

lemma CheckInputChannel_step:
  assumes "lookup_task w taskID = Some (Some t)" and "mode t = READ"
    and "channelUsesList t = Block us" and "unat channel < length us"
    and "\<not> channel > channelsNumber t"
  shows "if SIGNAL_INPUT_CHANNEL_MAX_USES \<le> unat (us ! unat channel)
         then CheckInputChannel w taskID channel = Inr (w, False)
         else (\<exists>w1 t1. CheckInputChannel w taskID channel = Inr (w1, True) \<and>
                 lookup_task w1 taskID = Some (Some t1) \<and> mode t1 = READ \<and>
                 channelsNumber t1 = channelsNumber t \<and>
                 channelUsesList t1 = Block (us[unat channel := us ! unat channel + 1]))"
proof (cases "SIGNAL_INPUT_CHANNEL_MAX_USES \<le> unat (us ! unat channel)")
  case True
  then show ?thesis
    using find_task_lookup [OF assms(1)] assms(2-5)
    by (simp add: CheckInputChannel_def READ_def WRITE_def)
next
  case False
  define t1 where "t1 = t\<lparr>channelUsesList := Block (us[unat channel := us ! unat channel + 1])\<rparr>"
  define t2 where "t2 = (if isRunning t then t1 else fst (start_worker AsyncReadBuffer t1 (calls w)))"
  define cs where "cs = (if isRunning t then calls w else snd (start_worker AsyncReadBuffer t1 (calls w)))"
  define w1 where "w1 = (put_task w taskID t2)\<lparr>calls := cs\<rparr>"
  have first: "CheckInputChannel w taskID channel = Inr (w1, True)"
    using find_task_lookup [OF assms(1)] assms(2-5) False
    by (simp add: CheckInputChannel_def READ_def WRITE_def w1_def t2_def t1_def cs_def
        start_worker_def)
  have l1: "lookup_task w1 taskID = Some (Some t2)"
    using lookup_put_task [OF assms(1)] by (simp add: w1_def)
  have t2: "mode t2 = READ" "channelsNumber t2 = channelsNumber t"
    "channelUsesList t2 = Block (us[unat channel := us ! unat channel + 1])"
    using assms(2) by (simp_all add: t2_def t1_def start_worker_def)
  show ?thesis using first l1 t2 False by auto
qed

lemma replicate_results:
  "k > 0 \<Longrightarrow>
     True # (replicate (min n (k - 1)) True @ replicate (n - (k - 1)) False)
       = replicate (min (Suc n) k) True @ replicate (Suc n - k) False"
  by (cases k) (simp_all add: min_def)

lemma CheckInputChannel_times_from:
  assumes "lookup_task w taskID = Some (Some t)" and "mode t = READ"
    and "channelUsesList t = Block us" and "unat channel < length us"
    and "\<not> channel > channelsNumber t"
  shows "\<exists>w' t'. CheckInputChannel_times n w taskID channel
             = Inr (w', replicate (min n (SIGNAL_INPUT_CHANNEL_MAX_USES - unat (us ! unat channel))) True
                      @ replicate (n - (SIGNAL_INPUT_CHANNEL_MAX_USES - unat (us ! unat channel))) False) \<and>
           lookup_task w' taskID = Some (Some t') \<and> mode t' = READ \<and>
           channelsNumber t' = channelsNumber t \<and>
           channelUsesList t' = Block (us[unat channel := us ! unat channel
               + of_nat (min n (SIGNAL_INPUT_CHANNEL_MAX_USES - unat (us ! unat channel)))])"
  using assms
proof (induction n arbitrary: w t us)
  case 0
  then show ?case by (simp add: list_update_id)
next
  case (Suc n)
  let ?c = "unat channel"
  let ?u = "us ! ?c"
  note step = CheckInputChannel_step [OF Suc.prems]
  show ?case
  proof (cases "SIGNAL_INPUT_CHANNEL_MAX_USES \<le> unat ?u")
    case True
    then have s: "CheckInputChannel w taskID channel = Inr (w, False)"
      using step by simp
    have k: "SIGNAL_INPUT_CHANNEL_MAX_USES - unat ?u = 0" using True by simp
    obtain w' t' where ih:
      "CheckInputChannel_times n w taskID channel = Inr (w', replicate n False)"
      "lookup_task w' taskID = Some (Some t')" "mode t' = READ"
      "channelsNumber t' = channelsNumber t" "channelUsesList t' = Block us"
      using Suc.IH [OF Suc.prems] unfolding k by (auto simp: list_update_id)
    show ?thesis
      unfolding k using s ih by (simp add: list_update_id)
  next
    case False
    then obtain w1 t1 where s: "CheckInputChannel w taskID channel = Inr (w1, True)"
      and l1: "lookup_task w1 taskID = Some (Some t1)" and m1: "mode t1 = READ"
      and n1: "channelsNumber t1 = channelsNumber t"
      and u1: "channelUsesList t1 = Block (us[?c := ?u + 1])"
      using step by auto
    have lt: "unat ?u < 5" using False by (simp add: SIGNAL_INPUT_CHANNEL_MAX_USES_def)
    have un: "unat (?u + 1) = unat ?u + 1"
      using lt by (simp add: unat_word_ariths)
    have len: "?c < length (us[?c := ?u + 1])" using Suc.prems(4) by simp
    have le: "\<not> channel > channelsNumber t1" using Suc.prems(5) n1 by simp
    have nth: "(us[?c := ?u + 1]) ! ?c = ?u + 1" using Suc.prems(4) by simp
    let ?k = "SIGNAL_INPUT_CHANNEL_MAX_USES - unat ?u"
    have k1: "SIGNAL_INPUT_CHANNEL_MAX_USES - unat (?u + 1) = ?k - 1"
      using un by simp
    have kpos: "?k > 0" using False by simp
    obtain w' t' where ih:
      "CheckInputChannel_times n w1 taskID channel
         = Inr (w', replicate (min n (?k - 1)) True @ replicate (n - (?k - 1)) False)"
      "lookup_task w' taskID = Some (Some t')" "mode t' = READ"
      "channelsNumber t' = channelsNumber t1"
      "channelUsesList t' = Block (us[?c := ?u + 1 + of_nat (min n (?k - 1))])"
      using Suc.IH [OF l1 m1 u1 len le] unfolding nth k1 by auto
    have cnt: "?u + 1 + of_nat (min n (?k - 1)) = ?u + of_nat (min (Suc n) ?k)"
      using kpos by (cases ?k) (simp_all add: min_def)
    show ?thesis
      using s ih n1 replicate_results [OF kpos, of n] unfolding cnt
      by simp
  qed
qed

text \<open>
  Claim C7. For a registered Read-mode task and a channel below its channel count
  whose use count is 0: of \<open>n\<close> calls of \<^verbatim>\<open>CheckInputChannel\<close> in a row the first
  \<^verbatim>\<open>SIGNAL_INPUT_CHANNEL_MAX_USES\<close> (5) return true and all later ones false; the use
  count after them is \<open>min n 5\<close>, so it stays 5 from the fifth call on; and once
  five calls were made a further call returns false and leaves the world as it is.
\<close>

theorem CheckInputChannel_saturates:
  assumes "lookup_task w taskID = Some (Some t)" and "mode t = READ" and "task_allocated t"
    and "channel < channelsNumber t"
    and "ptr_read (channelUsesList t) (unat channel) = Inr 0"
  shows "\<exists>w' t'. CheckInputChannel_times n w taskID channel
             = Inr (w', replicate (min n SIGNAL_INPUT_CHANNEL_MAX_USES) True
                      @ replicate (n - SIGNAL_INPUT_CHANNEL_MAX_USES) False) \<and>
           lookup_task w' taskID = Some (Some t') \<and>
           ptr_read (channelUsesList t') (unat channel)
             = Inr (of_nat (min n SIGNAL_INPUT_CHANNEL_MAX_USES)) \<and>
           (SIGNAL_INPUT_CHANNEL_MAX_USES \<le> n
              \<longrightarrow> CheckInputChannel w' taskID channel = Inr (w', False))"
proof -
  obtain us where us: "channelUsesList t = Block us"
    using assms(3) block_len_SomeD unfolding task_allocated_def by blast
  have c: "unat channel < length us"
    using assms(3) us assms(4) by (rule unat_lt_length)
  have le: "\<not> channel > channelsNumber t"
    using assms(4) by simp
  have z: "us ! unat channel = 0"
    using assms(5) us c by simp
  obtain w' t' where r:
    "CheckInputChannel_times n w taskID channel
       = Inr (w', replicate (min n SIGNAL_INPUT_CHANNEL_MAX_USES) True
                @ replicate (n - SIGNAL_INPUT_CHANNEL_MAX_USES) False)"
    "lookup_task w' taskID = Some (Some t')" "mode t' = READ"
    "channelsNumber t' = channelsNumber t"
    "channelUsesList t' = Block (us[unat channel := of_nat (min n SIGNAL_INPUT_CHANNEL_MAX_USES)])"
    using CheckInputChannel_times_from [OF assms(1,2) us c le, of n] unfolding z by auto
  have c': "unat channel < length (us[unat channel := of_nat (min n SIGNAL_INPUT_CHANNEL_MAX_USES)])"
    using c by simp
  have le': "\<not> channel > channelsNumber t'"
    using le r(4) by simp
  have cnt: "ptr_read (channelUsesList t') (unat channel)
               = Inr (of_nat (min n SIGNAL_INPUT_CHANNEL_MAX_USES))"
    using r(5) c by simp
  have sat: "SIGNAL_INPUT_CHANNEL_MAX_USES \<le> n
               \<longrightarrow> CheckInputChannel w' taskID channel = Inr (w', False)"
  proof
    assume "SIGNAL_INPUT_CHANNEL_MAX_USES \<le> n"
    then have "min n SIGNAL_INPUT_CHANNEL_MAX_USES = 5"
      by (simp add: SIGNAL_INPUT_CHANNEL_MAX_USES_def)
    then have "SIGNAL_INPUT_CHANNEL_MAX_USES
                 \<le> unat ((us[unat channel := of_nat (min n SIGNAL_INPUT_CHANNEL_MAX_USES)]) ! unat channel :: uInt32)"
      using c by (simp add: SIGNAL_INPUT_CHANNEL_MAX_USES_def)
    then show "CheckInputChannel w' taskID channel = Inr (w', False)"
      using CheckInputChannel_step [OF r(2,3,5) c' le'] by simp
  qed
  show ?thesis using r(1,2) cnt sat by blast
qed

theorem CheckInputChannel_saturates_witness:
  "lookup_task (world_of 5 task_in []) 5 = Some (Some task_in) \<and> mode task_in = READ \<and>
   task_allocated task_in \<and> (0::uInt32) < channelsNumber task_in \<and>
   ptr_read (channelUsesList task_in) (unat (0::uInt32)) = Inr 0 \<and>
   (\<exists>w' t'. CheckInputChannel_times 7 (world_of 5 task_in []) 5 0
               = Inr (w', [True, True, True, True, True, False, False]) \<and>
            lookup_task w' 5 = Some (Some t') \<and>
            ptr_read (channelUsesList t') (unat (0::uInt32)) = Inr 5 \<and>
            CheckInputChannel w' 5 0 = Inr (w', False))"
proof -
  have a: "mode task_in = READ" by (simp add: task_in_def)
  have b: "task_allocated task_in"
    by (simp add: task_allocated_def task_in_def READ_def AQUISITION_BUFFER_LENGTH_def)
  have c: "(0::uInt32) < channelsNumber task_in" by (simp add: task_in_def)
  have d: "ptr_read (channelUsesList task_in) (unat (0::uInt32)) = Inr 0"
    by (simp add: task_in_def)
  have e: "replicate (min 7 SIGNAL_INPUT_CHANNEL_MAX_USES) True
             @ replicate (7 - SIGNAL_INPUT_CHANNEL_MAX_USES) False
           = [True, True, True, True, True, False, False]"
    by (simp add: SIGNAL_INPUT_CHANNEL_MAX_USES_def numeral_eq_Suc)
  have f: "(of_nat (min 7 SIGNAL_INPUT_CHANNEL_MAX_USES) :: uInt32) = 5"
    by (simp add: SIGNAL_INPUT_CHANNEL_MAX_USES_def)
  have g: "SIGNAL_INPUT_CHANNEL_MAX_USES \<le> 7"
    by (simp add: SIGNAL_INPUT_CHANNEL_MAX_USES_def)
  show ?thesis
    using CheckInputChannel_saturates
        [where n = 7, OF lookup_world_of [of 5 task_in "[]"] a b c d] a b c d g
    unfolding e f by simp
qed

section \<open>Opening a task\<close>

lemma create_locks_Block:
  "n \<le> length ls \<Longrightarrow>
     \<exists>ls'. create_locks (Block ls) n k = Inr (Block ls') \<and> length ls' = length ls"
proof (induction "Block ls" n k arbitrary: ls rule: create_locks.induct)
  case (1 n channel)
  then show ?case by (subst create_locks.simps) auto
qed

lemma LoadTaskData_valid:
  assumes "0 \<le> fst (env_load ev taskName)"
    and "0 \<le> fst (env_chans ev (snd (env_load ev taskName)))"
    and "0 \<le> env_start ev (snd (env_load ev taskName))"
  shows "\<exists>t. LoadTaskData ev raw taskName cs
               = Inr (Some t, cs @ [DAQmxLoadTask taskName,
                                     DAQmxStartTask (snd (env_load ev taskName))]) \<and>
             task_allocated t \<and> \<not> isRunning t \<and> threadID t = THREAD_INVALID_HANDLE \<and>
             handle t = snd (env_load ev taskName) \<and>
             channelsNumber t = snd (env_chans ev (snd (env_load ev taskName))) \<and>
             channelUsesList t = Block (replicate (unat (channelsNumber t)) 0) \<and>
             mode t = (if env_read_chans ev (snd (env_load ev taskName)) > 0 then READ else WRITE)"
proof -
  let ?h = "snd (env_load ev taskName)"
  let ?n = "unat (snd (env_chans ev ?h))"
  obtain ls where ls: "create_locks (Block (replicate ?n SemZero)) ?n 0 = Inr (Block ls)"
    "length ls = ?n"
    using create_locks_Block [of ?n "replicate ?n SemZero" 0] by auto
  show ?thesis
  proof (cases "env_read_chans ev ?h > 0")
    case True
    then show ?thesis
      using assms ls
      by (simp add: LoadTaskData_def LoadTaskData_build_def Let_def calloc_def task_allocated_def
          READ_def WRITE_def)
  next
    case False
    then show ?thesis
      using assms
      by (simp add: LoadTaskData_def LoadTaskData_build_def Let_def calloc_def task_allocated_def
          READ_def WRITE_def)
  qed
qed

lemma InitDevice_again:
  assumes "InitDevice ev raw w taskName = Inr (w1, i)" and "env_hash ev2 = env_hash ev"
  shows "InitDevice ev2 raw2 w1 taskName = Inr (w1, i)"
proof -
  let ?h = "case tasksList w of None \<Rightarrow> [] | Some h0 \<Rightarrow> h0"
  let ?k = "env_hash ev taskName"
  show ?thesis
  proof (cases "kh_get ?h ?k")
    case (Some v)
    then have w1: "w1 = w\<lparr>tasksList := Some ?h\<rparr>" "i = uint ?k"
      using assms(1) by (simp_all add: InitDevice_def Let_def)
    show ?thesis
      using Some assms(2) unfolding w1 by (simp add: InitDevice_def Let_def)
  next
    case None
    show ?thesis
    proof (cases "LoadTaskData ev raw taskName (calls w)")
      case (Inl e)
      then show ?thesis using None assms(1) by (simp add: InitDevice_def Let_def)
    next
      case (Inr r)
      obtain tp cs where r: "r = (tp, cs)" by (cases r)
      show ?thesis
      proof (cases tp)
        case tpNone: None
        have "EndDevice ev (w\<lparr>tasksList := Some (kh_set_value ?h ?k (Pointer None)),
                                calls := cs\<rparr>) (sint ?k)
                = Inl NullDeref"
          by (simp add: EndDevice_def kh_get_def kh_set_value_def AList.update_conv' CheckTask_def)
        then show ?thesis
          using None Inr r tpNone assms(1) by (simp add: InitDevice_def Let_def)
      next
        case (Some t)
        then have w1: "w1 = w\<lparr>tasksList := Some (kh_set_value ?h ?k (Pointer (Some t))),
                                calls := cs\<rparr>"
          "i = uint ?k"
          using None Inr r assms(1) by (simp_all add: InitDevice_def Let_def)
        show ?thesis
          using assms(2) unfolding w1
          by (simp add: InitDevice_def Let_def kh_get_def kh_set_value_def AList.update_conv')
      qed
    qed
  qed
qed

text \<open>
  Claim C6. For a task name the vendor layer loads (every status non-negative),
  \<^verbatim>\<open>InitDevice\<close> returns the key of the name, and a second \<^verbatim>\<open>InitDevice\<close> with the
  same name returns the same identifier and leaves the world as the first call left
  it: the registry holds the same single task, and no call to the vendor layer is
  made, whatever the vendor layer would answer.
\<close>

theorem InitDevice_twice:
  assumes "0 \<le> fst (env_load ev taskName)"
    and "0 \<le> fst (env_chans ev (snd (env_load ev taskName)))"
    and "0 \<le> env_start ev (snd (env_load ev taskName))"
    and "env_hash ev2 = env_hash ev"
  shows "\<exists>w1. InitDevice ev raw w taskName = Inr (w1, uint (env_hash ev taskName)) \<and>
              InitDevice ev2 raw2 w1 taskName = Inr (w1, uint (env_hash ev taskName))"
proof -
  let ?h = "case tasksList w of None \<Rightarrow> [] | Some h0 \<Rightarrow> h0"
  let ?k = "env_hash ev taskName"
  have "\<exists>w1. InitDevice ev raw w taskName = Inr (w1, uint ?k)"
  proof (cases "kh_get ?h ?k")
    case (Some v)
    then show ?thesis by (simp add: InitDevice_def Let_def)
  next
    case None
    obtain t cs where "LoadTaskData ev raw taskName (calls w) = Inr (Some t, cs)"
      using LoadTaskData_valid [OF assms(1-3), of raw "calls w"] by blast
    then show ?thesis using None by (simp add: InitDevice_def Let_def)
  qed
  then obtain w1 where first: "InitDevice ev raw w taskName = Inr (w1, uint ?k)" ..
  show ?thesis
    using first InitDevice_again [OF first assms(4)] by blast
qed

theorem InitDevice_twice_witness:
  "0 \<le> fst (env_load ev_in ''taskA'') \<and>
   0 \<le> fst (env_chans ev_in (snd (env_load ev_in ''taskA''))) \<and>
   0 \<le> env_start ev_in (snd (env_load ev_in ''taskA'')) \<and>
   (\<exists>w1. InitDevice ev_in raw0 world0 ''taskA'' = Inr (w1, 5) \<and>
         InitDevice ev_in raw0 w1 ''taskA'' = Inr (w1, 5))"
proof -
  have a: "0 \<le> fst (env_load ev_in ''taskA'')"
    "0 \<le> fst (env_chans ev_in (snd (env_load ev_in ''taskA'')))"
    "0 \<le> env_start ev_in (snd (env_load ev_in ''taskA''))"
    by (simp_all add: ev_in_def)
  have k: "uint (env_hash ev_in ''taskA'') = 5"
    by (simp add: ev_in_def)
  show ?thesis
    using InitDevice_twice [OF a refl, of raw0 world0 raw0] a unfolding k by simp
qed

text \<open>The concrete worlds used below are the ones \<^verbatim>\<open>InitDevice\<close> builds.\<close>

lemma replicate_2: "replicate 2 x = [x, x]"
  by (simp add: numeral_2_eq_2)

lemma replicate_3: "replicate 3 x = [x, x, x]"
  by (simp add: numeral_3_eq_3)

lemma create_locks_two:
  "create_locks (Block [a, b]) 2 0
     = Inr (Block [Sem 0 SIGNAL_INPUT_CHANNEL_MAX_USES, Sem 0 SIGNAL_INPUT_CHANNEL_MAX_USES])"
proof -
  have 2: "create_locks (Block ls) 2 (Suc (Suc 0)) = Inr (Block ls)" for ls
    by (subst create_locks.simps) simp
  have 1: "create_locks (Block [x, b]) 2 (Suc 0) = Inr (Block [x, Sem 0 SIGNAL_INPUT_CHANNEL_MAX_USES])" for x
    by (subst create_locks.simps) (simp add: 2)
  show ?thesis
    by (subst create_locks.simps) (simp add: 1)
qed

lemma InitDevice_ev_in:
  "InitDevice ev_in raw0 world0 ''taskA''
     = Inr (world_of 5 task_in [DAQmxLoadTask ''taskA'', DAQmxStartTask 1], 5)"
  by (simp add: InitDevice_def LoadTaskData_def LoadTaskData_build_def Let_def ev_in_def raw0_def
      world0_def world_of_def task_in_def calloc_def kh_get_def kh_set_value_def READ_def
      AQUISITION_BUFFER_LENGTH_def SIGNAL_INPUT_CHANNEL_MAX_USES_def create_locks_two
      replicate_2)

lemma InitDevice_ev_out:
  "InitDevice ev_out raw0 world0 ''taskB''
     = Inr (world_of 5 task_out [DAQmxLoadTask ''taskB'', DAQmxStartTask 1], 5)"
  by (simp add: InitDevice_def LoadTaskData_def LoadTaskData_build_def Let_def ev_out_def raw0_def
      world0_def world_of_def task_out_def calloc_def kh_get_def kh_set_value_def READ_def WRITE_def
      AQUISITION_BUFFER_LENGTH_def SIGNAL_INPUT_CHANNEL_MAX_USES_def replicate_3)

section \<open>Defects\<close>

text \<open>
  Claim C1 says that every channel operation fails at every index greater than or
  equal to the channel count. \<^verbatim>\<open>Read\<close> tests \<^verbatim>\<open>channel >= channelsNumber\<close>; the other
  four test \<^verbatim>\<open>channel > channelsNumber\<close>, so the index equal to the channel count
  passes and the next statement indexes the array one cell past its end. On a
  two-channel Read-mode task and a running three-channel Write-mode task:
\<close>

theorem out_of_range_index_accepted:
  "channelsNumber task_in = 2 \<and>
   CheckInputChannel (world_of 5 task_in []) 5 2 = Inl OutOfBounds \<and>
   channelsNumber (task_out_running [0, 0, 1]) = 3 \<and>
   Write (world_of 5 (task_out_running [0, 0, 1]) []) 5 3 (7 / 2) = Inl OutOfBounds \<and>
   AcquireOutputChannel (world_of 5 (task_out_running [0, 0, 1]) []) 5 3 = Inl OutOfBounds \<and>
   ReleaseOutputChannel (world_of 5 (task_out_running [0, 0, 1]) []) 5 3 = Inl OutOfBounds"
  by (simp add: CheckInputChannel_def Write_def AcquireOutputChannel_def ReleaseOutputChannel_def
      find_task_lookup task_in_def task_out_def task_out_running_def READ_def WRITE_def)

text \<open>
  Claim C3 says that \<^verbatim>\<open>UnloadTaskData\<close> is safe on a partially built task.
  \<^verbatim>\<open>UnloadTaskData\<close> reads \<^verbatim>\<open>task->channelLocksList[ 0 ]\<close> (or every cell, in Read
  mode) before the null test of that list. A failed \<^verbatim>\<open>LoadTaskData\<close> has not
  allocated the list: on zeroed memory the task it hands to \<^verbatim>\<open>UnloadTaskData\<close> has
  mode \<^verbatim>\<open>WRITE\<close> and a null lock list, both when the task is unknown and when it
  does not start.
\<close>

theorem UnloadTaskData_partial_task:
  "LoadTaskData_build ev_absent raw0 ''nope'' [] = Inr (raw0, [DAQmxLoadTask ''nope''], True) \<and>
   UnloadTaskData (Some raw0) [DAQmxLoadTask ''nope''] = Inl NullDeref \<and>
   LoadTaskData ev_absent raw0 ''nope'' [] = Inl NullDeref \<and>
   LoadTaskData_build ev_unstartable raw0 ''taskC'' []
     = Inr (raw0\<lparr>handle := 1, channelsNumber := 2, channelUsesList := Block [0, 0],
                 samplesList := Block (replicate 20 0), channelValuesList := Block [0, 0]\<rparr>,
            [DAQmxLoadTask ''taskC'', DAQmxStartTask 1], True) \<and>
   LoadTaskData ev_unstartable raw0 ''taskC'' [] = Inl NullDeref"
  by (simp add: LoadTaskData_def LoadTaskData_build_def UnloadTaskData_def Let_def ev_absent_def
      ev_unstartable_def raw0_def calloc_def READ_def WRITE_def AQUISITION_BUFFER_LENGTH_def
      replicate_2)

lemma UnloadTaskData_null_locks:
  assumes "LoadTaskData_build ev raw taskName cs = Inr (t, cs', True)"
    and "mode raw = WRITE" and "channelLocksList raw = Null"
  shows "UnloadTaskData (Some t) cs' = Inl NullDeref"
  using assms
  by (auto simp: LoadTaskData_build_def Let_def UnloadTaskData_def READ_def WRITE_def
      split: if_splits sum.splits)

text \<open>
  Claim C5 says that \<^verbatim>\<open>InitDevice\<close> returns the failure value and leaves no entry
  when the load fails. After a failed load the new entry holds \<^verbatim>\<open>NULL\<close>;
  \<^verbatim>\<open>InitDevice\<close> calls \<^verbatim>\<open>EndDevice\<close>, which passes the entry to \<^verbatim>\<open>CheckTask\<close>, and
  \<^verbatim>\<open>CheckTask\<close> reads \<^verbatim>\<open>task->channelUsesList\<close>. On zeroed memory the call has
  already failed inside \<^verbatim>\<open>UnloadTaskData\<close>; on memory where \<^verbatim>\<open>UnloadTaskData\<close>
  gets through (mode byte set, no channels), \<^verbatim>\<open>LoadTaskData\<close> returns \<^verbatim>\<open>NULL\<close> and
  \<^verbatim>\<open>InitDevice\<close> fails in \<^verbatim>\<open>CheckTask\<close>.
\<close>

theorem InitDevice_failed_load:
  "InitDevice ev_absent raw0 world0 ''nope'' = Inl NullDeref \<and>
   LoadTaskData ev_absent (raw0\<lparr>mode := READ\<rparr>) ''nope'' []
     = Inr (None, [DAQmxLoadTask ''nope'', DAQmxStopTask 0, DAQmxClearTask 0]) \<and>
   InitDevice ev_absent (raw0\<lparr>mode := READ\<rparr>) world0 ''nope'' = Inl NullDeref"
  by (simp add: InitDevice_def EndDevice_def CheckTask_def LoadTaskData_def LoadTaskData_build_def
      UnloadTaskData_def Let_def ev_absent_def raw0_def world0_def READ_def WRITE_def
      kh_get_def kh_set_value_def discard_locks.simps)

text \<open>In general, \<^verbatim>\<open>InitDevice\<close> never returns \<open>- 1\<close>.\<close>

lemma InitDevice_never_reports_failure:
  "InitDevice ev raw w taskName \<noteq> Inr (w', - 1)"
proof -
  let ?h = "case tasksList w of None \<Rightarrow> [] | Some h0 \<Rightarrow> h0"
  let ?k = "env_hash ev taskName"
  have nn: "uint ?k \<noteq> - 1"
    using uint_ge_0 [of ?k] by linarith
  show ?thesis
  proof (cases "kh_get ?h ?k")
    case (Some v)
    then show ?thesis using nn by (simp add: InitDevice_def Let_def)
  next
    case None
    show ?thesis
    proof (cases "LoadTaskData ev raw taskName (calls w)")
      case (Inl e)
      then show ?thesis using None by (simp add: InitDevice_def Let_def)
    next
      case (Inr r)
      obtain tp cs where r: "r = (tp, cs)" by (cases r)
      show ?thesis
      proof (cases tp)
        case tpNone: None
        have "EndDevice ev (w\<lparr>tasksList := Some (kh_set_value ?h ?k (Pointer None)),
                                calls := cs\<rparr>) (sint ?k)
                = Inl NullDeref"
          by (simp add: EndDevice_def kh_get_def kh_set_value_def AList.update_conv' CheckTask_def)
        then show ?thesis
          using None Inr r tpNone by (simp add: InitDevice_def Let_def)
      next
        case (Some t)
        then show ?thesis
          using None Inr r nn by (simp add: InitDevice_def Let_def)
      qed
    qed
  qed
qed

section \<open>Closing a task\<close>

lemma EndDevice_unreserved:
  assumes "lookup_task w taskID = Some (Some t)" and "task_allocated t"
    and "channelUsesList t = Block us" and "\<forall>u\<in>set us. u = 0" and "tasksList w = Some h"
  shows "EndDevice ev w taskID =
           (case kh_del (kh_set_value h (word_of_int taskID) Dangling)
                   (env_bucket ev (kh_set_value h (word_of_int taskID) Dangling)
                      (word_of_int taskID)) of
              Inl e \<Rightarrow> Inl e
            | Inr h' \<Rightarrow>
                Inr (w\<lparr>tasksList := (if length h' = 0 then None else Some h'),
                       calls := calls w
                         @ (if threadID t \<noteq> THREAD_INVALID_HANDLE
                            then [Thread_WaitExit (threadID t)] else [])
                         @ [DAQmxStopTask (handle t), DAQmxClearTask (handle t)]\<rparr>))"
proof -
  have k: "kh_get h (word_of_int taskID) = Some (Pointer (Some t))"
    using lookup_task_SomeD [OF assms(1)] assms(5) by auto
  have len: "length us = unat (channelsNumber t)"
    using assms(2,3) by (simp add: task_allocated_def)
  have ul: "UnloadTaskData (Some (t\<lparr>isRunning := False\<rparr>)) cs
              = Inr (cs @ [DAQmxStopTask (handle t), DAQmxClearTask (handle t)])" for cs
    using UnloadTaskData_allocated [of "t\<lparr>isRunning := False\<rparr>" cs] assms(2) by simp
  show ?thesis
    using assms(4,5) k CheckTask_Block [OF assms(3) len, of "calls w"] ul
    by (simp add: EndDevice_def Let_def split: sum.splits)
qed

lemma klib_bucket_padding:
  "4 \<le> unat x \<Longrightarrow> unat x < 16 \<Longrightarrow> klib_bucket h x = BucketFree"
  by (simp add: klib_bucket_def)

lemma klib_bucket_outside: "16 \<le> unat x \<Longrightarrow> klib_bucket h x = BucketOutside"
  by (simp add: klib_bucket_def)

lemma klib_bucket_two: "klib_bucket [(5, a), (1, b)] 1 = BucketOf 5"
  by (simp add: klib_bucket_def klib_buckets_def klib_put_def)

lemma InitDevice_second:
  "length cs = 3 \<Longrightarrow>
   InitDevice ev_out raw0 (world_of 5 (task_in_running [1, 0]) cs) ''B''
     = Inr (\<lparr>tasksList = Some [(5, Pointer (Some (task_in_running [1, 0]))),
                               (1, Pointer (Some task_out))],
             calls = cs @ [DAQmxLoadTask ''B'', DAQmxStartTask 1]\<rparr>, 1)"
  by (simp add: InitDevice_def LoadTaskData_def LoadTaskData_build_def Let_def ev_out_def raw0_def
      world_of_def task_out_def calloc_def kh_get_def kh_set_value_def READ_def WRITE_def
      AQUISITION_BUFFER_LENGTH_def SIGNAL_INPUT_CHANNEL_MAX_USES_def replicate_3)

text \<open>
  Claim C4 says that \<^verbatim>\<open>EndDevice\<close> leaves a task with a nonzero reservation slot
  registered and unchanged, and that with every slot zero it unloads the task and
  removes its entry. The first half holds. The second does not: the task is
  unloaded, but \<^verbatim>\<open>kh_del\<close> is handed the key where it takes a bucket position.

  \<^item> \<^verbatim>\<open>InitDevice\<close> registers a task under key 5, in bucket 1 of 4; \<^verbatim>\<open>EndDevice( 5 )\<close>
    releases the task and hands position 5 to \<^verbatim>\<open>kh_del\<close>, the flag of no bucket:
    nothing is deleted. Identifier 5 stays registered with the address of the
    released task, a second \<^verbatim>\<open>InitDevice\<close> of the name finds the key and loads
    nothing, and \<^verbatim>\<open>CheckInputChannel\<close> reads the released memory.
  \<^item> With a reserved task under key 5 and an unreserved one under key 1 (bucket 2, as
    bucket 1 is taken), \<^verbatim>\<open>EndDevice( 1 )\<close> releases task 1 and deletes bucket 1: the
    reserved task 5 leaves the registry and the entry of task 1 stays.
  \<^item> With a key of 16 or more in a table of 4 buckets the flag word read by
    \<^verbatim>\<open>kh_del\<close> lies past the flag array.
\<close>

theorem EndDevice_key_as_position:
  "run world0 [CallInitDevice ev_in raw0 ''taskA'', CallEndDevice ev_in 5]
     = Inr \<lparr>tasksList = Some [(5, Dangling)],
            calls = [DAQmxLoadTask ''taskA'', DAQmxStartTask 1,
                     DAQmxStopTask 1, DAQmxClearTask 1]\<rparr> \<and>
   lookup_task \<lparr>tasksList = Some [(5, Dangling)],
                calls = [DAQmxLoadTask ''taskA'', DAQmxStartTask 1,
                         DAQmxStopTask 1, DAQmxClearTask 1]\<rparr> 5
     = Some None \<and>
   InitDevice ev_in raw0
       \<lparr>tasksList = Some [(5, Dangling)],
        calls = [DAQmxLoadTask ''taskA'', DAQmxStartTask 1,
                 DAQmxStopTask 1, DAQmxClearTask 1]\<rparr> ''taskA''
     = Inr (\<lparr>tasksList = Some [(5, Dangling)],
             calls = [DAQmxLoadTask ''taskA'', DAQmxStartTask 1,
                      DAQmxStopTask 1, DAQmxClearTask 1]\<rparr>, 5) \<and>
   CheckInputChannel
       \<lparr>tasksList = Some [(5, Dangling)],
        calls = [DAQmxLoadTask ''taskA'', DAQmxStartTask 1,
                 DAQmxStopTask 1, DAQmxClearTask 1]\<rparr> 5 0
     = Inl WildDeref \<and>
   run world0 [CallInitDevice ev_in raw0 ''taskA'', CallCheckInputChannel 5 0,
               CallInitDevice ev_out raw0 ''B'', CallEndDevice ev_out 1]
     = Inr \<lparr>tasksList = Some [(1, Dangling)],
            calls = [DAQmxLoadTask ''taskA'', DAQmxStartTask 1, Thread_Start AsyncReadBuffer,
                     DAQmxLoadTask ''B'', DAQmxStartTask 1,
                     DAQmxStopTask 1, DAQmxClearTask 1]\<rparr> \<and>
   lookup_task \<lparr>tasksList = Some [(1, Dangling)],
                calls = [DAQmxLoadTask ''taskA'', DAQmxStartTask 1, Thread_Start AsyncReadBuffer,
                         DAQmxLoadTask ''B'', DAQmxStartTask 1,
                         DAQmxStopTask 1, DAQmxClearTask 1]\<rparr> 5
     = None \<and>
   EndDevice ev_in (world_of 110132060 task_in []) 110132060 = Inl OutOfBounds"
proof -
  have a: "task_allocated task_in"
    by (simp add: task_allocated_def task_in_def READ_def AQUISITION_BUFFER_LENGTH_def)
  have b: "channelUsesList task_in = Block [0, 0]"
    "threadID task_in = THREAD_INVALID_HANDLE" "handle task_in = 1"
    by (simp_all add: task_in_def)
  have z: "\<forall>u\<in>set [0::uInt32, 0]. u = 0" by simp
  have e: "env_bucket ev_in = klib_bucket" "env_bucket ev_out = klib_bucket"
    by (simp_all add: ev_in_def ev_out_def)
  have end5: "EndDevice ev_in (world_of 5 task_in cs) 5
     = Inr \<lparr>tasksList = Some [(5, Dangling)],
            calls = cs @ [DAQmxStopTask 1, DAQmxClearTask 1]\<rparr>" for cs
    using EndDevice_unreserved
      [where ev = ev_in and h = "[(5, Pointer (Some task_in))]",
        OF lookup_world_of [of 5 task_in cs] a b(1) z]
    by (simp add: world_of_def e b kh_set_value_def kh_del_def klib_bucket_padding)
  have one: "run world0 [CallInitDevice ev_in raw0 ''taskA'', CallEndDevice ev_in 5]
     = Inr \<lparr>tasksList = Some [(5, Dangling)],
            calls = [DAQmxLoadTask ''taskA'', DAQmxStartTask 1,
                     DAQmxStopTask 1, DAQmxClearTask 1]\<rparr>"
    by (simp add: InitDevice_ev_in end5)
  have two: "lookup_task \<lparr>tasksList = Some [(5, Dangling)], calls = cs\<rparr> 5 = Some None" for cs
    by (simp add: lookup_task_def kh_get_def)
  have three: "InitDevice ev_in raw0 \<lparr>tasksList = Some [(5, Dangling)], calls = cs\<rparr> ''taskA''
     = Inr (\<lparr>tasksList = Some [(5, Dangling)], calls = cs\<rparr>, 5)" for cs
    by (simp add: InitDevice_def Let_def ev_in_def kh_get_def)
  have four: "CheckInputChannel \<lparr>tasksList = Some [(5, Dangling)], calls = cs\<rparr> 5 0
     = Inl WildDeref" for cs
    by (simp add: CheckInputChannel_def find_task_def kh_get_def)
  have c1: "length cs = 2 \<Longrightarrow> CheckInputChannel (world_of 5 task_in cs) 5 0
              = Inr (world_of 5 (task_in_running [1, 0]) (cs @ [Thread_Start AsyncReadBuffer]), True)"
    for cs
    by (simp add: CheckInputChannel_def find_task_lookup task_in_def task_in_running_def
        READ_def WRITE_def SIGNAL_INPUT_CHANNEL_MAX_USES_def start_worker_def numeral_2_eq_2)
  have c: "task_allocated task_out"
    by (simp add: task_allocated_def task_out_def READ_def WRITE_def AQUISITION_BUFFER_LENGTH_def)
  have d: "channelUsesList task_out = Block [0, 0, 0]"
    "threadID task_out = THREAD_INVALID_HANDLE" "handle task_out = 1"
    by (simp_all add: task_out_def)
  have z3: "\<forall>u\<in>set [0::uInt32, 0, 0]. u = 0" by simp
  have l: "lookup_task \<lparr>tasksList = Some [(5, Pointer (Some (task_in_running [1, 0]))),
                                          (1, Pointer (Some task_out))], calls = cs\<rparr> 1
             = Some (Some task_out)" for cs
    by (simp add: lookup_task_def kh_get_def)
  have end1: "EndDevice ev_out \<lparr>tasksList = Some [(5, Pointer (Some (task_in_running [1, 0]))),
                                                  (1, Pointer (Some task_out))], calls = cs\<rparr> 1
     = Inr \<lparr>tasksList = Some [(1, Dangling)],
            calls = cs @ [DAQmxStopTask 1, DAQmxClearTask 1]\<rparr>" for cs
    using EndDevice_unreserved
      [where ev = ev_out
         and h = "[(5, Pointer (Some (task_in_running [1, 0]))), (1, Pointer (Some task_out))]",
        OF l [of cs] c d(1) z3]
    by (simp add: e d kh_set_value_def kh_del_def klib_bucket_two)
  have five: "run world0 [CallInitDevice ev_in raw0 ''taskA'', CallCheckInputChannel 5 0,
               CallInitDevice ev_out raw0 ''B'', CallEndDevice ev_out 1]
     = Inr \<lparr>tasksList = Some [(1, Dangling)],
            calls = [DAQmxLoadTask ''taskA'', DAQmxStartTask 1, Thread_Start AsyncReadBuffer,
                     DAQmxLoadTask ''B'', DAQmxStartTask 1,
                     DAQmxStopTask 1, DAQmxClearTask 1]\<rparr>"
    by (simp add: InitDevice_ev_in c1 InitDevice_second end1)
  have six: "lookup_task \<lparr>tasksList = Some [(1, Dangling)], calls = cs\<rparr> 5 = None" for cs
    by (simp add: lookup_task_def kh_get_def)
  have seven: "EndDevice ev_in (world_of 110132060 task_in []) 110132060 = Inl OutOfBounds"
    using EndDevice_unreserved
      [where ev = ev_in and h = "[(110132060, Pointer (Some task_in))]",
        OF lookup_world_of [of 110132060 task_in "[]"] a b(1) z]
    by (simp add: world_of_def e b kh_set_value_def kh_del_def klib_bucket_outside)
  show ?thesis
    using one two three four five six seven by simp
qed

section \<open>Use counts of a Read-mode task\<close>

lemma scan_uses_take:
  assumes n: "n \<le> length us"
  shows "scan_uses (Block us) n 0 = Inr (\<exists>u\<in>set (take n us). u \<noteq> 0)"
proof -
  have len: "length (take n us) = n" using n by simp
  have "(\<exists>u\<in>set (take n us). u \<noteq> 0) = (\<exists>i<n. take n us ! i \<noteq> 0)"
    using len by (metis in_set_conv_nth)
  also have "\<dots> = (\<exists>i<n. us ! i \<noteq> 0)" by auto
  also have "\<dots> = (\<exists>c. 0 \<le> c \<and> c < n \<and> us ! c \<noteq> 0)" by auto
  finally show ?thesis using n by (simp add: scan_uses_Block)
qed

lemma lookup_task_key:
  "(word_of_int j :: khint_t) = word_of_int i \<Longrightarrow> lookup_task w j = lookup_task w i"
  by (cases "tasksList w") (simp_all add: lookup_task_def)

lemma put_task_key:
  "(word_of_int j :: khint_t) = word_of_int i \<Longrightarrow> put_task w j t = put_task w i t"
  by (simp add: put_task_def)

lemma scan_uses_finds:
  "k \<le> c \<Longrightarrow> c < n \<Longrightarrow> c < length us \<Longrightarrow> us ! c \<noteq> 0
     \<Longrightarrow> scan_uses (Block us) n k = Inr True"
proof (induction "Block us" n k rule: scan_uses.induct)
  case (1 n channel)
  show ?case
  proof (cases "us ! channel = 0")
    case True
    then have "Suc channel \<le> c" using 1(2,5) by (metis Suc_leI le_neq_implies_less)
    then have "scan_uses (Block us) n (Suc channel) = Inr True"
      using 1 True by (simp add: word_greater_zero_iff)
    then show ?thesis using 1(2-4) True
      by (subst scan_uses.simps) (simp add: word_greater_zero_iff)
  next
    case False
    then show ?thesis using 1(2-4)
      by (subst scan_uses.simps) (simp add: word_greater_zero_iff)
  qed
qed

lemma Read_world: "Read w j ch = Inr (w', r) \<Longrightarrow> w' = w"
  by (auto simp: Read_def Let_def split: sum.splits option.splits if_splits ptr.splits)

lemma GetMaxInputSamplesNumber_world: "GetMaxInputSamplesNumber w j = Inr (w', r) \<Longrightarrow> w' = w"
  by (auto simp: GetMaxInputSamplesNumber_def split: sum.splits option.splits if_splits)

lemma CheckInputChannel_other:
  "CheckInputChannel w j ch = Inr (w', r) \<Longrightarrow> (word_of_int i :: khint_t) \<noteq> word_of_int j
     \<Longrightarrow> lookup_task w' i = lookup_task w i"
  by (auto simp: CheckInputChannel_def Let_def lookup_put_task_other
      split: sum.splits option.splits if_splits prod.splits)

lemma Write_other:
  "Write w j ch v = Inr (w', r) \<Longrightarrow> (word_of_int i :: khint_t) \<noteq> word_of_int j
     \<Longrightarrow> lookup_task w' i = lookup_task w i"
  by (auto simp: Write_def lookup_put_task_other
      split: sum.splits option.splits if_splits)

lemma AcquireOutputChannel_other:
  "AcquireOutputChannel w j ch = Inr (w', r) \<Longrightarrow> (word_of_int i :: khint_t) \<noteq> word_of_int j
     \<Longrightarrow> lookup_task w' i = lookup_task w i"
  by (auto simp: AcquireOutputChannel_def Let_def lookup_put_task_other
      split: sum.splits option.splits if_splits prod.splits)

lemma ReleaseOutputChannel_other:
  "ReleaseOutputChannel w j ch = Inr w' \<Longrightarrow> (word_of_int i :: khint_t) \<noteq> word_of_int j
     \<Longrightarrow> lookup_task w' i = lookup_task w i"
  by (auto simp: ReleaseOutputChannel_def lookup_put_task_other
      split: sum.splits option.splits if_splits prod.splits)

lemma CheckTask_used:
  "CheckTask tp cs = Inr (t1, cs', True) \<Longrightarrow> tp = Some t1 \<and> cs' = cs"
  by (auto simp: CheckTask_def split: option.splits sum.splits if_splits)

lemma map_of_kh_del:
  assumes "kh_del (kh_set_value h kj Dangling) b = Inr h'"
    and "map_of h' ki = Some (Pointer (Some t'))"
  shows "map_of h ki = Some (Pointer (Some t'))"
proof (cases b)
  case BucketOutside
  then show ?thesis using assms(1) by (simp add: kh_del_def)
next
  case BucketFree
  then have "h' = AList.update kj Dangling h"
    using assms(1) by (simp add: kh_del_def kh_set_value_def)
  then show ?thesis
    using assms(2) by (simp add: AList.update_conv' split: if_splits)
next
  case (BucketOf k)
  then have "h' = AList.delete k (AList.update kj Dangling h)"
    using assms(1) by (simp add: kh_del_def kh_set_value_def)
  then show ?thesis
    using assms(2) by (simp add: AList.delete_conv' AList.update_conv' split: if_splits)
qed

lemma EndDevice_live:
  assumes "EndDevice ev w j = Inr w'" and "lookup_task w i = Some (Some t)"
    and "lookup_task w' i = Some (Some t')"
  shows "t' = t"
proof -
  obtain h where h: "tasksList w = Some h"
    "kh_get h (word_of_int i) = Some (Pointer (Some t))"
    using lookup_task_SomeD [OF assms(2)] by auto
  have same: "w' = w \<Longrightarrow> ?thesis" using assms(2,3) by simp
  show ?thesis
  proof (cases "kh_get h (word_of_int j)")
    case None
    then show ?thesis using assms(1) h same by (simp add: EndDevice_def)
  next
    case (Some e)
    show ?thesis
    proof (cases e)
      case Dangling
      then show ?thesis using assms(1) h Some by (simp add: EndDevice_def)
    next
      case (Pointer tp)
      show ?thesis
      proof (cases "CheckTask tp (calls w)")
        case (Inl e)
        then show ?thesis using assms(1) h Some Pointer by (simp add: EndDevice_def)
      next
        case (Inr p)
        obtain t1 cs used where p: "p = (t1, cs, used)" by (cases p)
        show ?thesis
        proof (cases used)
          case True
          have w': "w' = (put_task w j t1)\<lparr>calls := cs\<rparr>"
            using assms(1) h Some Pointer Inr p True by (simp add: EndDevice_def)
          show ?thesis
          proof (cases "(word_of_int i :: khint_t) = word_of_int j")
            case eq: True
            have "tp = Some t" using h(2) Some Pointer eq by simp
            then have "t1 = t" using CheckTask_used Inr p True by fastforce
            moreover have "lookup_task w' i = Some (Some t1)"
              using w' lookup_put_task [OF assms(2), of t1] put_task_def eq
              by (simp add: put_task_def lookup_task_def)
            ultimately show ?thesis using assms(3) by simp
          next
            case False
            then have "lookup_task w' i = lookup_task w i"
              using w' by (simp add: lookup_put_task_other)
            then show ?thesis using assms(2,3) by simp
          qed
        next
          case False
          let ?h1 = "kh_set_value h (word_of_int j) Dangling"
          show ?thesis
          proof (cases "UnloadTaskData (Some t1) cs")
            case (Inl e)
            then show ?thesis
              using assms(1) h Some Pointer Inr p False by (simp add: EndDevice_def)
          next
            case cs': (Inr cs')
            show ?thesis
            proof (cases "kh_del ?h1 (env_bucket ev ?h1 (word_of_int j))")
              case (Inl e)
              then show ?thesis
                using assms(1) h Some Pointer Inr p False cs'
                by (simp add: EndDevice_def Let_def)
            next
              case h': (Inr h')
              have "w' = w\<lparr>tasksList := (if length h' = 0 then None else Some h'),
                            calls := cs'\<rparr>"
                using assms(1) h Some Pointer Inr p False cs' h'
                by (simp add: EndDevice_def Let_def)
              then have "map_of h' (word_of_int i) = Some (Pointer (Some t'))"
                using assms(3) lookup_task_table [where w = w and h = h' and cs = cs' and i = i]
                by (simp split: option.splits entry.splits)
              then have "map_of h (word_of_int i) = Some (Pointer (Some t'))"
                using h' by (rule map_of_kh_del [rotated])
              then show ?thesis using h(2) by (simp add: kh_get_def)
            qed
          qed
        qed
      qed
    qed
  qed
qed

lemma InitDevice_keeps:
  assumes "InitDevice ev raw w taskName = Inr (w', r)" and "lookup_task w i = Some (Some t)"
  shows "lookup_task w' i = Some (Some t)"
proof -
  obtain h where h: "tasksList w = Some h"
    "kh_get h (word_of_int i) = Some (Pointer (Some t))"
    using lookup_task_SomeD [OF assms(2)] by auto
  let ?k = "env_hash ev taskName"
  show ?thesis
  proof (cases "kh_get h ?k")
    case (Some v)
    then have "w' = w\<lparr>tasksList := Some h\<rparr>"
      using assms(1) h by (auto simp: InitDevice_def Let_def)
    then show ?thesis using h by (simp add: lookup_task_def)
  next
    case None
    then have ne: "word_of_int i \<noteq> ?k" using h(2) by auto
    show ?thesis
    proof (cases "LoadTaskData ev raw taskName (calls w)")
      case (Inl e)
      then show ?thesis using None assms(1) h by (simp add: InitDevice_def Let_def)
    next
      case (Inr p)
      obtain tp cs where p: "p = (tp, cs)" by (cases p)
      show ?thesis
      proof (cases tp)
        case tpNone: None
        have "EndDevice ev (w\<lparr>tasksList := Some (kh_set_value h ?k (Pointer None)),
                                calls := cs\<rparr>) (sint ?k)
                = Inl NullDeref"
          by (simp add: EndDevice_def kh_get_def kh_set_value_def AList.update_conv' CheckTask_def)
        then show ?thesis
          using None Inr p tpNone assms(1) h by (simp add: InitDevice_def Let_def)
      next
        case (Some t1)
        then have "w' = w\<lparr>tasksList := Some (kh_set_value h ?k (Pointer (Some t1))),
                          calls := cs\<rparr>"
          using None Inr p assms(1) h by (simp add: InitDevice_def Let_def)
        then show ?thesis
          using h(2) ne
          by (simp add: lookup_task_def kh_get_def kh_set_value_def AList.update_conv')
      qed
    qed
  qed
qed

lemma exec_keeps_counts:
  assumes l: "lookup_task w taskID = Some (Some t)" and m: "mode t = READ"
    and u: "channelUsesList t = Block us"
    and nr: "\<not> releases taskID x" and ex: "exec w x = Inr w'"
    and l': "lookup_task w' taskID = Some (Some t')"
  shows "mode t' = READ \<and> channelsNumber t' = channelsNumber t \<and>
         (\<exists>us'. channelUsesList t' = Block us' \<and> length us' = length us \<and>
                (\<forall>i<length us. us ! i \<le> us' ! i))"
proof -
  have other: "lookup_task w' taskID = lookup_task w taskID \<Longrightarrow> ?thesis"
    using l l' m u by auto
  have same: "w' = w \<Longrightarrow> ?thesis"
    using other by simp
  show ?thesis
  proof (cases x)
    case (CallInitDevice ev raw taskName)
    then obtain r where "InitDevice ev raw w taskName = Inr (w', r)"
      using ex by (cases "InitDevice ev raw w taskName") auto
    then have "lookup_task w' taskID = Some (Some t)"
      using l by (rule InitDevice_keeps)
    then show ?thesis using l other by simp
  next
    case (CallEndDevice ev j)
    then have "EndDevice ev w j = Inr w'" using ex by simp
    then have "t' = t" using l l' by (rule EndDevice_live)
    then show ?thesis using l l' other by simp
  next
    case (CallReset j)
    then show ?thesis using ex same by (simp add: Reset_def)
  next
    case (CallHasError j)
    then show ?thesis using ex same by (simp add: HasError_def)
  next
    case (CallGetMaxInputSamplesNumber j)
    then obtain r where "GetMaxInputSamplesNumber w j = Inr (w', r)"
      using ex by (cases "GetMaxInputSamplesNumber w j") auto
    then show ?thesis using same GetMaxInputSamplesNumber_world by blast
  next
    case (CallRead j ch)
    then obtain r where "Read w j ch = Inr (w', r)"
      using ex by (cases "Read w j ch") auto
    then show ?thesis using same Read_world by blast
  next
    case (CallCheckInputChannel j ch)
    then obtain r where e: "CheckInputChannel w j ch = Inr (w', r)"
      using ex by (cases "CheckInputChannel w j ch") auto
    show ?thesis
    proof (cases "(word_of_int j :: khint_t) = word_of_int taskID")
      case False
      then have "lookup_task w' taskID = lookup_task w taskID"
        using CheckInputChannel_other [OF e] by simp
      then show ?thesis by (rule other)
    next
      case True
      have lj: "lookup_task w j = Some (Some t)"
        using l lookup_task_key [OF True] by simp
      note f = find_task_lookup [OF lj]
      show ?thesis
      proof (cases "ch > channelsNumber t")
        case gt: True
        then have "w' = w" using e f m by (simp add: CheckInputChannel_def READ_def WRITE_def)
        then show ?thesis by (rule same)
      next
        case le: False
        show ?thesis
        proof (cases "unat ch < length us")
          case oob: False
          then have "CheckInputChannel w j ch = Inl OutOfBounds"
            using f m u le by (simp add: CheckInputChannel_def READ_def WRITE_def)
          then show ?thesis using e by simp
        next
          case inb: True
          note step = CheckInputChannel_step [OF lj m u inb le]
          show ?thesis
          proof (cases "SIGNAL_INPUT_CHANNEL_MAX_USES \<le> unat (us ! unat ch)")
            case sat: True
            then have "w' = w" using step e by simp
            then show ?thesis by (rule same)
          next
            case free: False
            then obtain t1 where l1: "lookup_task w' j = Some (Some t1)" and m1: "mode t1 = READ"
              and n1: "channelsNumber t1 = channelsNumber t"
              and u1: "channelUsesList t1 = Block (us[unat ch := us ! unat ch + 1])"
              using step e by auto
            have lt: "unat (us ! unat ch) < 5"
              using free by (simp add: SIGNAL_INPUT_CHANNEL_MAX_USES_def)
            have un: "unat (us ! unat ch + 1) = unat (us ! unat ch) + 1"
              using lt by (simp add: unat_word_ariths)
            have inc: "us ! unat ch \<le> us ! unat ch + 1"
              using un by (simp add: word_le_nat_alt)
            have mono: "\<forall>i<length us. us ! i \<le> (us[unat ch := us ! unat ch + 1]) ! i"
              using inc inb by (auto simp: nth_list_update)
            have "lookup_task w' taskID = Some (Some t1)"
              using l1 lookup_task_key [OF True] by simp
            then have "t' = t1" using l' by simp
            then show ?thesis using m1 n1 u1 mono by auto
          qed
        qed
      qed
    qed
  next
    case (CallWrite j ch v)
    then obtain r where e: "Write w j ch v = Inr (w', r)"
      using ex by (cases "Write w j ch v") auto
    show ?thesis
    proof (cases "(word_of_int j :: khint_t) = word_of_int taskID")
      case False
      then have "lookup_task w' taskID = lookup_task w taskID"
        using Write_other [OF e] by simp
      then show ?thesis by (rule other)
    next
      case True
      have lj: "lookup_task w j = Some (Some t)"
        using l lookup_task_key [OF True] by simp
      have "w' = w"
        using e find_task_lookup [OF lj] m by (simp add: Write_def split: if_splits)
      then show ?thesis by (rule same)
    qed
  next
    case (CallAcquireOutputChannel j ch)
    then obtain r where e: "AcquireOutputChannel w j ch = Inr (w', r)"
      using ex by (cases "AcquireOutputChannel w j ch") auto
    show ?thesis
    proof (cases "(word_of_int j :: khint_t) = word_of_int taskID")
      case False
      then have "lookup_task w' taskID = lookup_task w taskID"
        using AcquireOutputChannel_other [OF e] by simp
      then show ?thesis by (rule other)
    next
      case True
      have lj: "lookup_task w j = Some (Some t)"
        using l lookup_task_key [OF True] by simp
      have "w' = w"
        using e find_task_lookup [OF lj] m by (simp add: AcquireOutputChannel_def)
      then show ?thesis by (rule same)
    qed
  next
    case (CallReleaseOutputChannel j ch)
    then have e: "ReleaseOutputChannel w j ch = Inr w'" using ex by simp
    have "(word_of_int taskID :: khint_t) \<noteq> word_of_int j"
      using nr CallReleaseOutputChannel by auto
    then have "lookup_task w' taskID = lookup_task w taskID"
      using ReleaseOutputChannel_other [OF e] by simp
    then show ?thesis by (rule other)
  qed
qed

lemma registered_iff: "registered w taskID \<longleftrightarrow> (\<exists>t. lookup_task w taskID = Some (Some t))"
  by (auto simp: registered_def split: option.splits)

lemma run_keeps_counts:
  assumes "lookup_task w taskID = Some (Some t)" and "mode t = READ"
    and "channelUsesList t = Block us"
    and "\<forall>x\<in>set cs. \<not> releases taskID x" and "stays_registered taskID w cs"
  shows "\<exists>w' t' us'. run w cs = Inr w' \<and> lookup_task w' taskID = Some (Some t') \<and>
           mode t' = READ \<and> channelsNumber t' = channelsNumber t \<and>
           channelUsesList t' = Block us' \<and> length us' = length us \<and>
           (\<forall>i<length us. us ! i \<le> us' ! i)"
  using assms
proof (induction cs arbitrary: w t us)
  case Nil
  then show ?case by auto
next
  case (Cons x cs)
  obtain w1 where x: "exec w x = Inr w1" and sr: "stays_registered taskID w1 cs"
    using Cons.prems(5) by (cases "exec w x") auto
  have nrx: "\<not> releases taskID x" and nrs: "\<forall>y\<in>set cs. \<not> releases taskID y"
    using Cons.prems(4) by auto
  have "registered w1 taskID" using sr by (cases cs) auto
  then obtain t1 where l1: "lookup_task w1 taskID = Some (Some t1)"
    by (auto simp: registered_iff)
  obtain us1 where s1: "mode t1 = READ" "channelsNumber t1 = channelsNumber t"
    "channelUsesList t1 = Block us1" "length us1 = length us"
    "\<forall>i<length us. us ! i \<le> us1 ! i"
    using exec_keeps_counts [OF Cons.prems(1-3) nrx x l1] by blast
  obtain w' t' us' where s': "run w1 cs = Inr w'" "lookup_task w' taskID = Some (Some t')"
    "mode t' = READ" "channelsNumber t' = channelsNumber t1" "channelUsesList t' = Block us'"
    "length us' = length us1" "\<forall>i<length us1. us1 ! i \<le> us' ! i"
    using Cons.IH [OF l1 s1(1,3) nrs sr] by blast
  have "\<forall>i<length us. us ! i \<le> us' ! i"
    using s1(4,5) s'(7) by (metis order_trans)
  moreover have "run w (x # cs) = Inr w'" using x s'(1) by simp
  ultimately show ?case using s1(2,4) s'(2-6) by auto
qed

text \<open>
  Claim C2 says that no public operation ever decreases a use count of a Read-mode
  task, so that a saturated channel stays saturated forever. It fails:
  \<^verbatim>\<open>ReleaseOutputChannel\<close> stores 0 whatever the mode. After \<^verbatim>\<open>InitDevice\<close> and five
  successful calls of \<^verbatim>\<open>CheckInputChannel\<close> on channel 0 of a Read-mode task the use
  count is 5; \<^verbatim>\<open>ReleaseOutputChannel\<close> on that channel leaves it at 0.
\<close>

theorem release_lowers_read_count:
  "run world0 [CallInitDevice ev_in raw0 ''taskA'',
               CallCheckInputChannel 5 0, CallCheckInputChannel 5 0, CallCheckInputChannel 5 0,
               CallCheckInputChannel 5 0, CallCheckInputChannel 5 0]
     = Inr (world_of 5 (task_in_running [5, 0])
              [DAQmxLoadTask ''taskA'', DAQmxStartTask 1, Thread_Start AsyncReadBuffer]) \<and>
   mode (task_in_running [5, 0]) = READ \<and>
   ReleaseOutputChannel
       (world_of 5 (task_in_running [5, 0])
          [DAQmxLoadTask ''taskA'', DAQmxStartTask 1, Thread_Start AsyncReadBuffer]) 5 0
     = Inr (world_of 5 ((task_in_running [0, 0])\<lparr>isRunning := False\<rparr>)
              [DAQmxLoadTask ''taskA'', DAQmxStartTask 1, Thread_Start AsyncReadBuffer,
               Thread_WaitExit (ThreadId 2)])"
proof -
  let ?cs = "[DAQmxLoadTask ''taskA'', DAQmxStartTask 1]"
  have c1: "length cs = 2 \<Longrightarrow> CheckInputChannel (world_of 5 task_in cs) 5 0
              = Inr (world_of 5 (task_in_running [1, 0]) (cs @ [Thread_Start AsyncReadBuffer]), True)"
    for cs
    by (simp add: CheckInputChannel_def find_task_lookup task_in_def task_in_running_def
        READ_def WRITE_def SIGNAL_INPUT_CHANNEL_MAX_USES_def start_worker_def numeral_2_eq_2)
  have cn: "unat u < 5 \<Longrightarrow> CheckInputChannel (world_of 5 (task_in_running [u, 0]) cs) 5 0
              = Inr (world_of 5 (task_in_running [u + 1, 0]) cs, True)" for u cs
    by (simp add: CheckInputChannel_def find_task_lookup task_in_def task_in_running_def
        READ_def WRITE_def SIGNAL_INPUT_CHANNEL_MAX_USES_def)
  have r: "run world0 [CallInitDevice ev_in raw0 ''taskA'',
               CallCheckInputChannel 5 0, CallCheckInputChannel 5 0, CallCheckInputChannel 5 0,
               CallCheckInputChannel 5 0, CallCheckInputChannel 5 0]
     = Inr (world_of 5 (task_in_running [5, 0]) (?cs @ [Thread_Start AsyncReadBuffer]))"
    by (simp add: InitDevice_ev_in c1 cn)
  have m: "mode (task_in_running [5, 0]) = READ"
    by (simp add: task_in_running_def task_in_def)
  have rel: "ReleaseOutputChannel (world_of 5 (task_in_running [5, 0]) cs) 5 0
     = Inr (world_of 5 ((task_in_running [0, 0])\<lparr>isRunning := False\<rparr>)
              (cs @ [Thread_WaitExit (ThreadId 2)]))" for cs
    by (simp add: ReleaseOutputChannel_def find_task_lookup CheckTask_def scan_uses_take
        task_in_def task_in_running_def)
  show ?thesis using r m rel by simp
qed

text \<open>
  Claim C2 as amended. For a registered Read-mode task, every sequence of public
  operations that contains no \<^verbatim>\<open>ReleaseOutputChannel\<close> on the task's identifier, and
  throughout which the task stays registered, returns and leaves the task in Read
  mode with no use count lower than before; and a channel of the task whose count had
  reached \<^verbatim>\<open>SIGNAL_INPUT_CHANNEL_MAX_USES\<close> is still refused by \<^verbatim>\<open>CheckInputChannel\<close>
  afterwards. Calls of \<^verbatim>\<open>ReleaseOutputChannel\<close> on other identifiers are allowed. That
  the task stays registered is a hypothesis and not a consequence: \<^verbatim>\<open>EndDevice\<close> on
  another identifier can take this task's entry out of the registry, since it
  hands \<^verbatim>\<open>kh_del\<close> a key where a bucket position is meant.
\<close>

theorem use_counts_while_registered:
  assumes "lookup_task w taskID = Some (Some t)" and "mode t = READ"
    and "channelUsesList t = Block us"
    and "\<forall>x\<in>set cs. \<not> releases taskID x" and "stays_registered taskID w cs"
  shows "\<exists>w' t' us'. run w cs = Inr w' \<and> lookup_task w' taskID = Some (Some t') \<and>
           mode t' = READ \<and> channelUsesList t' = Block us' \<and> length us' = length us \<and>
           (\<forall>i<length us. us ! i \<le> us' ! i) \<and>
           (channel < channelsNumber t \<and> unat channel < length us \<and>
            SIGNAL_INPUT_CHANNEL_MAX_USES \<le> unat (us ! unat channel)
              \<longrightarrow> CheckInputChannel w' taskID channel = Inr (w', False))"
proof -
  obtain w' t' us' where s: "run w cs = Inr w'" "lookup_task w' taskID = Some (Some t')"
    "mode t' = READ" "channelsNumber t' = channelsNumber t" "channelUsesList t' = Block us'"
    "length us' = length us" "\<forall>i<length us. us ! i \<le> us' ! i"
    using run_keeps_counts [OF assms] by blast
  have sat: "channel < channelsNumber t \<and> unat channel < length us \<and>
             SIGNAL_INPUT_CHANNEL_MAX_USES \<le> unat (us ! unat channel)
               \<longrightarrow> CheckInputChannel w' taskID channel = Inr (w', False)"
  proof
    assume a: "channel < channelsNumber t \<and> unat channel < length us \<and>
               SIGNAL_INPUT_CHANNEL_MAX_USES \<le> unat (us ! unat channel)"
    have c': "unat channel < length us'" using s(6) a by simp
    have le': "\<not> channel > channelsNumber t'"
      using s(4) a by (metis not_less_iff_gr_or_eq)
    have "us ! unat channel \<le> us' ! unat channel" using s(7) a by simp
    then have "SIGNAL_INPUT_CHANNEL_MAX_USES \<le> unat (us' ! unat channel)"
      using a by (simp add: word_le_nat_alt)
    then show "CheckInputChannel w' taskID channel = Inr (w', False)"
      using CheckInputChannel_step [OF s(2,3,5) c' le'] by simp
  qed
  show ?thesis using s(1,2,3,5,6,7) sat by blast
qed

theorem use_counts_while_registered_witness:
  "lookup_task (world_of 5 (task_in_running [5, 0]) []) 5 = Some (Some (task_in_running [5, 0])) \<and>
   mode (task_in_running [5, 0]) = READ \<and>
   channelUsesList (task_in_running [5, 0]) = Block [5, 0] \<and>
   stays_registered 5 (world_of 5 (task_in_running [5, 0]) [])
       [CallCheckInputChannel 5 0, CallCheckInputChannel 5 1, CallEndDevice ev_in 5,
        CallWrite 5 0 1, CallAcquireOutputChannel 5 0, CallRead 5 0,
        CallReleaseOutputChannel 1 0] \<and>
   run (world_of 5 (task_in_running [5, 0]) [])
       [CallCheckInputChannel 5 0, CallCheckInputChannel 5 1, CallEndDevice ev_in 5,
        CallWrite 5 0 1, CallAcquireOutputChannel 5 0, CallRead 5 0,
        CallReleaseOutputChannel 1 0]
     = Inr (world_of 5 (task_in_running [5, 1]) []) \<and>
   (\<exists>t' us'. lookup_task (world_of 5 (task_in_running [5, 1]) []) 5 = Some (Some t') \<and>
        mode t' = READ \<and> channelUsesList t' = Block us' \<and> length us' = 2 \<and>
        5 \<le> us' ! 0 \<and> 0 \<le> us' ! 1 \<and>
        CheckInputChannel (world_of 5 (task_in_running [5, 1]) []) 5 0
          = Inr (world_of 5 (task_in_running [5, 1]) [], False))"
proof -
  let ?w = "world_of 5 (task_in_running [5, 0]) []"
  let ?w' = "world_of 5 (task_in_running [5, 1]) []"
  let ?cs = "[CallCheckInputChannel 5 0, CallCheckInputChannel 5 1, CallEndDevice ev_in 5,
              CallWrite 5 0 1, CallAcquireOutputChannel 5 0, CallRead 5 0,
              CallReleaseOutputChannel 1 0]"
  have m: "mode (task_in_running [5, 0]) = READ"
    by (simp add: task_in_running_def task_in_def)
  have u: "channelUsesList (task_in_running [5, 0]) = Block [5, 0]"
    by (simp add: task_in_running_def)
  have n: "(0::uInt32) < channelsNumber (task_in_running [5, 0])"
    by (simp add: task_in_running_def task_in_def)
  have nr: "\<forall>x\<in>set ?cs. \<not> releases 5 x" by simp
  have e1: "CheckInputChannel ?w 5 0 = Inr (?w, False)"
    by (simp add: CheckInputChannel_def find_task_lookup task_in_def task_in_running_def
        READ_def WRITE_def SIGNAL_INPUT_CHANNEL_MAX_USES_def)
  have e2: "CheckInputChannel ?w 5 1 = Inr (?w', True)"
    by (simp add: CheckInputChannel_def find_task_lookup task_in_def task_in_running_def
        READ_def WRITE_def SIGNAL_INPUT_CHANNEL_MAX_USES_def)
  have e3: "EndDevice ev_in ?w' 5 = Inr ?w'"
    by (simp add: EndDevice_def world_of_def kh_get_def CheckTask_def scan_uses_take
        task_in_def task_in_running_def put_task_def kh_set_value_def)
  have e4: "Write ?w' 5 0 1 = Inr (?w', False)"
    by (simp add: Write_def find_task_lookup task_in_def task_in_running_def READ_def)
  have e5: "AcquireOutputChannel ?w' 5 0 = Inr (?w', False)"
    by (simp add: AcquireOutputChannel_def find_task_lookup task_in_def task_in_running_def READ_def)
  have e6: "Read ?w' 5 0 = Inr (?w', 0, [])"
    by (simp add: Read_def find_task_lookup task_in_def task_in_running_def READ_def WRITE_def)
  have e7: "ReleaseOutputChannel ?w' 1 0 = Inr ?w'"
    by (simp add: ReleaseOutputChannel_def find_task_def world_of_def kh_get_def)
  have r: "run ?w ?cs = Inr ?w'"
    by (simp add: e1 e2 e3 e4 e5 e6 e7)
  have sr: "stays_registered 5 ?w ?cs"
    by (simp add: e1 e2 e3 e4 e5 e6 e7 registered_def)
  have five: "unat (5::uInt32) = 5" by simp
  show ?thesis
    using use_counts_while_registered [OF lookup_world_of m u nr sr, of 0] m u n r sr
    by (auto simp: SIGNAL_INPUT_CHANNEL_MAX_USES_def)
qed

section \<open>Further properties\<close>

lemma block_len_ptr_write:
  "ptr_write p i v = Inr p' \<Longrightarrow> block_len p' = block_len p"
  by (cases p) (auto split: if_splits)

lemma CheckTask_allocated:
  "CheckTask (Some t) cs = Inr (t', cs', b) \<Longrightarrow> task_allocated t' = task_allocated t"
  by (auto simp: CheckTask_def split: sum.splits if_splits)

lemma LoadTaskData_allocated:
  assumes "LoadTaskData ev raw taskName cs = Inr (Some t, cs')"
  shows "task_allocated t"
proof -
  have ok: "0 \<le> fst (env_load ev taskName)"
    "0 \<le> fst (env_chans ev (snd (env_load ev taskName)))"
    "0 \<le> env_start ev (snd (env_load ev taskName))"
    using assms
    by (auto simp: LoadTaskData_def LoadTaskData_build_def Let_def split: if_splits sum.splits)
  show ?thesis
    using LoadTaskData_valid [OF ok, of raw cs] assms by auto
qed

lemma world_ok_find:
  assumes "world_ok w" and "find_task w i = Inr (Some tp)"
  shows "\<exists>t. tp = Some t \<and> task_allocated t"
proof -
  obtain h where h: "tasksList w = Some h" "map_of h (word_of_int i) = Some (Pointer tp)"
    using assms(2)
    by (auto simp: find_task_def kh_get_def split: option.splits entry.splits)
  have "(word_of_int i, Pointer tp) \<in> set h" using h(2) by (rule map_of_SomeD)
  then show ?thesis
    using assms(1) h(1) by (auto simp: world_ok_def list_all_iff split: option.splits)
qed

lemma list_all_update:
  "list_all P al \<Longrightarrow> P (k, v) \<Longrightarrow> list_all P (AList.update k v al)"
  by (induction al) auto

lemma list_all_delete:
  "list_all P al \<Longrightarrow> list_all P (AList.delete k al)"
  by (induction al) auto

lemma world_ok_calls [simp]: "world_ok (w\<lparr>calls := cs\<rparr>) = world_ok w"
  by (simp add: world_ok_def)

lemma world_ok_put:
  "world_ok w \<Longrightarrow> task_allocated t \<Longrightarrow> world_ok (put_task w j t)"
  by (cases "tasksList w") (auto simp: world_ok_def put_task_def kh_set_value_def list_all_update)

lemma start_worker_allocated:
  "task_allocated (fst (start_worker k t cs)) = task_allocated t"
  by (simp add: start_worker_def task_allocated_def)

lemma exec_world_ok:
  assumes ok: "world_ok w" and ex: "exec w x = Inr w'"
  shows "world_ok w'"
proof (cases x)
  case (CallInitDevice ev raw taskName)
  let ?h = "case tasksList w of None \<Rightarrow> [] | Some h0 \<Rightarrow> h0"
  let ?k = "env_hash ev taskName"
  obtain r where i: "InitDevice ev raw w taskName = Inr (w', r)"
    using ex CallInitDevice by (cases "InitDevice ev raw w taskName") auto
  have okh: "list_all (\<lambda>e. case snd e of
                          Dangling \<Rightarrow> True
                        | Pointer None \<Rightarrow> False
                        | Pointer (Some t) \<Rightarrow> task_allocated t) ?h"
    using ok by (auto simp: world_ok_def split: option.splits)
  show ?thesis
  proof (cases "kh_get ?h ?k")
    case (Some v)
    then have "w' = w\<lparr>tasksList := Some ?h\<rparr>" using i by (auto simp: InitDevice_def Let_def)
    then show ?thesis using okh by (simp add: world_ok_def)
  next
    case None
    show ?thesis
    proof (cases "LoadTaskData ev raw taskName (calls w)")
      case (Inl e)
      then show ?thesis using None i by (simp add: InitDevice_def Let_def)
    next
      case (Inr p)
      obtain tp cs where p: "p = (tp, cs)" by (cases p)
      show ?thesis
      proof (cases tp)
        case tpNone: None
        have "EndDevice ev (w\<lparr>tasksList := Some (kh_set_value ?h ?k (Pointer None)),
                                calls := cs\<rparr>) (sint ?k)
                = Inl NullDeref"
          by (simp add: EndDevice_def kh_get_def kh_set_value_def AList.update_conv' CheckTask_def)
        then show ?thesis using None Inr p tpNone i by (simp add: InitDevice_def Let_def)
      next
        case (Some t)
        then have w': "w' = w\<lparr>tasksList := Some (kh_set_value ?h ?k (Pointer (Some t))),
                                calls := cs\<rparr>"
          using None Inr p i by (simp add: InitDevice_def Let_def)
        have "task_allocated t"
          using Inr p Some LoadTaskData_allocated by simp
        then show ?thesis
          unfolding w' using okh by (simp add: world_ok_def kh_set_value_def list_all_update)
      qed
    qed
  qed
next
  case (CallEndDevice ev j)
  then have e: "EndDevice ev w j = Inr w'" using ex by simp
  obtain h where h: "tasksList w = Some h"
    using e by (cases "tasksList w") (simp_all add: EndDevice_def)
  have okh: "list_all (\<lambda>e. case snd e of
                          Dangling \<Rightarrow> True
                        | Pointer None \<Rightarrow> False
                        | Pointer (Some t) \<Rightarrow> task_allocated t) h"
    using ok h by (simp add: world_ok_def)
  show ?thesis
  proof (cases "kh_get h (word_of_int j)")
    case None
    then show ?thesis using e h ok by (simp add: EndDevice_def)
  next
    case (Some en)
    show ?thesis
    proof (cases en)
      case Dangling
      then show ?thesis using e h Some by (simp add: EndDevice_def)
    next
      case (Pointer tp)
      then have "find_task w j = Inr (Some tp)" using h Some by (simp add: find_task_def)
      then obtain t where t: "tp = Some t" "task_allocated t"
        using world_ok_find [OF ok] by blast
      show ?thesis
      proof (cases "CheckTask tp (calls w)")
        case (Inl e')
        then show ?thesis using e h Some Pointer by (simp add: EndDevice_def)
      next
        case (Inr p)
        obtain t' cs used where p: "p = (t', cs, used)" by (cases p)
        have a': "task_allocated t'"
          using CheckTask_allocated Inr p t by blast
        show ?thesis
        proof (cases used)
          case True
          then have "w' = (put_task w j t')\<lparr>calls := cs\<rparr>"
            using e h Some Pointer Inr p by (simp add: EndDevice_def)
          then show ?thesis using ok a' by (simp add: world_ok_put)
        next
          case False
          let ?h1 = "kh_set_value h (word_of_int j) Dangling"
          have ok1: "list_all (\<lambda>e. case snd e of
                          Dangling \<Rightarrow> True
                        | Pointer None \<Rightarrow> False
                        | Pointer (Some t) \<Rightarrow> task_allocated t) ?h1"
            using okh by (simp add: kh_set_value_def list_all_update)
          show ?thesis
          proof (cases "UnloadTaskData (Some t') cs")
            case (Inl e')
            then show ?thesis using e h Some Pointer Inr p False by (simp add: EndDevice_def)
          next
            case cs': (Inr cs')
            show ?thesis
            proof (cases "kh_del ?h1 (env_bucket ev ?h1 (word_of_int j))")
              case (Inl e')
              then show ?thesis
                using e h Some Pointer Inr p False cs' by (simp add: EndDevice_def Let_def)
            next
              case h': (Inr h')
              have w': "w' = w\<lparr>tasksList := (if length h' = 0 then None else Some h'),
                                calls := cs'\<rparr>"
                using e h Some Pointer Inr p False cs' h' by (simp add: EndDevice_def Let_def)
              have "list_all (\<lambda>e. case snd e of
                          Dangling \<Rightarrow> True
                        | Pointer None \<Rightarrow> False
                        | Pointer (Some t) \<Rightarrow> task_allocated t) h'"
                using h' ok1 by (auto simp: kh_del_def list_all_delete split: bucket.splits)
              then show ?thesis
                unfolding w' by (simp add: world_ok_def)
            qed
          qed
        qed
      qed
    qed
  qed
next
  case (CallReset j)
  then show ?thesis using ex ok by (simp add: Reset_def)
next
  case (CallHasError j)
  then show ?thesis using ex ok by (auto simp: HasError_def)
next
  case (CallGetMaxInputSamplesNumber j)
  then obtain r where "GetMaxInputSamplesNumber w j = Inr (w', r)"
    using ex by (cases "GetMaxInputSamplesNumber w j") auto
  then show ?thesis using ok GetMaxInputSamplesNumber_world by blast
next
  case (CallRead j ch)
  then obtain r where "Read w j ch = Inr (w', r)"
    using ex by (cases "Read w j ch") auto
  then show ?thesis using ok Read_world by blast
next
  case (CallCheckInputChannel j ch)
  then obtain r where e: "CheckInputChannel w j ch = Inr (w', r)"
    using ex by (cases "CheckInputChannel w j ch") auto
  show ?thesis
  proof (cases "find_task w j")
    case (Inl e')
    then show ?thesis using e by (simp add: CheckInputChannel_def)
  next
    case (Inr tpo)
    show ?thesis
    proof (cases tpo)
      case None
      then show ?thesis using e Inr ok by (simp add: CheckInputChannel_def)
    next
      case (Some tp)
      then obtain t where t: "tp = Some t" "task_allocated t"
        using Inr world_ok_find [OF ok] by blast
      have f: "find_task w j = Inr (Some (Some t))" using Inr Some t by simp
      have al: "ptr_write (channelUsesList t) i v = Inr uses
                  \<Longrightarrow> task_allocated (t\<lparr>channelUsesList := uses\<rparr>)" for i v uses
        using t(2) block_len_ptr_write [of "channelUsesList t" i v uses]
        by (simp add: task_allocated_def)
      show ?thesis
        using e f ok al
        by (auto simp: CheckInputChannel_def Let_def world_ok_put start_worker_def
            task_allocated_def split: if_splits sum.splits)
    qed
  qed
next
  case (CallWrite j ch v)
  then obtain r where e: "Write w j ch v = Inr (w', r)"
    using ex by (cases "Write w j ch v") auto
  show ?thesis
  proof (cases "find_task w j")
    case (Inl e')
    then show ?thesis using e by (simp add: Write_def)
  next
    case (Inr tpo)
    show ?thesis
    proof (cases tpo)
      case None
      then show ?thesis using e Inr ok by (simp add: Write_def)
    next
      case (Some tp)
      then obtain t where t: "tp = Some t" "task_allocated t"
        using Inr world_ok_find [OF ok] by blast
      have f: "find_task w j = Inr (Some (Some t))" using Inr Some t by simp
      have al: "ptr_write (channelValuesList t) i x = Inr vals
                  \<Longrightarrow> task_allocated (t\<lparr>channelValuesList := vals\<rparr>)" for i x vals
        using t(2) block_len_ptr_write [of "channelValuesList t" i x vals]
        by (simp add: task_allocated_def)
      show ?thesis
        using e f ok al
        by (auto simp: Write_def world_ok_put split: if_splits sum.splits)
    qed
  qed
next
  case (CallAcquireOutputChannel j ch)
  then obtain r where e: "AcquireOutputChannel w j ch = Inr (w', r)"
    using ex by (cases "AcquireOutputChannel w j ch") auto
  show ?thesis
  proof (cases "find_task w j")
    case (Inl e')
    then show ?thesis using e by (simp add: AcquireOutputChannel_def)
  next
    case (Inr tpo)
    show ?thesis
    proof (cases tpo)
      case None
      then show ?thesis using e Inr ok by (simp add: AcquireOutputChannel_def)
    next
      case (Some tp)
      then obtain t where t: "tp = Some t" "task_allocated t"
        using Inr world_ok_find [OF ok] by blast
      have f: "find_task w j = Inr (Some (Some t))" using Inr Some t by simp
      have al: "ptr_write (channelUsesList t) i v = Inr uses
                  \<Longrightarrow> task_allocated (t\<lparr>channelUsesList := uses\<rparr>)" for i v uses
        using t(2) block_len_ptr_write [of "channelUsesList t" i v uses]
        by (simp add: task_allocated_def)
      show ?thesis
        using e f ok al
        by (auto simp: AcquireOutputChannel_def Let_def world_ok_put start_worker_def
            task_allocated_def split: if_splits sum.splits)
    qed
  qed
next
  case (CallReleaseOutputChannel j ch)
  then have e: "ReleaseOutputChannel w j ch = Inr w'" using ex by simp
  show ?thesis
  proof (cases "find_task w j")
    case (Inl e')
    then show ?thesis using e by (simp add: ReleaseOutputChannel_def)
  next
    case (Inr tpo)
    show ?thesis
    proof (cases tpo)
      case None
      then show ?thesis using e Inr ok by (simp add: ReleaseOutputChannel_def)
    next
      case (Some tp)
      then obtain t where t: "tp = Some t" "task_allocated t"
        using Inr world_ok_find [OF ok] by blast
      have f: "find_task w j = Inr (Some (Some t))" using Inr Some t by simp
      have al: "ptr_write (channelUsesList t) i v = Inr uses
                  \<Longrightarrow> task_allocated (t\<lparr>channelUsesList := uses\<rparr>)" for i v uses
        using t(2) block_len_ptr_write [of "channelUsesList t" i v uses]
        by (simp add: task_allocated_def)
      have ct: "CheckTask (Some (t\<lparr>channelUsesList := uses\<rparr>)) cs = Inr (t', cs', b)
                  \<Longrightarrow> ptr_write (channelUsesList t) i v = Inr uses
                  \<Longrightarrow> task_allocated t'" for uses cs t' cs' b i v
        using al CheckTask_allocated by blast
      show ?thesis
        using e f ok ct
        by (auto simp: ReleaseOutputChannel_def world_ok_put split: if_splits sum.splits)
    qed
  qed
qed

lemma run_world_ok:
  "world_ok w \<Longrightarrow> run w cs = Inr w' \<Longrightarrow> world_ok w'"
proof (induction cs arbitrary: w)
  case Nil
  then show ?case by simp
next
  case (Cons x cs)
  then obtain w1 where "exec w x = Inr w1" "run w1 cs = Inr w'"
    by (cases "exec w x") auto
  then show ?case using Cons.IH Cons.prems(1) exec_world_ok by blast
qed

text \<open>
  Property X1. In every world reached from the initial one by public operations,
  every task an operation finds under an identifier is non-null and has its arrays
  allocated as \<^verbatim>\<open>LoadTaskData\<close> allocates them: the hypothesis \<open>task_allocated\<close> of
  the theorems above holds of every task a caller can meet.
\<close>

theorem reachable_tasks_allocated:
  assumes "run world0 cs = Inr w" and "find_task w taskID = Inr (Some tp)"
  shows "\<exists>t. tp = Some t \<and> task_allocated t"
proof -
  have "world_ok world0" by (simp add: world_ok_def world0_def)
  then have "world_ok w" using assms(1) by (rule run_world_ok)
  then show ?thesis using assms(2) by (rule world_ok_find)
qed

theorem reachable_tasks_allocated_witness:
  "run world0 [CallInitDevice ev_in raw0 ''taskA'', CallCheckInputChannel 5 0]
     = Inr (world_of 5 (task_in_running [1, 0])
              [DAQmxLoadTask ''taskA'', DAQmxStartTask 1, Thread_Start AsyncReadBuffer]) \<and>
   find_task (world_of 5 (task_in_running [1, 0])
              [DAQmxLoadTask ''taskA'', DAQmxStartTask 1, Thread_Start AsyncReadBuffer]) 5
     = Inr (Some (Some (task_in_running [1, 0]))) \<and>
   (\<exists>t. Some (task_in_running [1, 0]) = Some t \<and> task_allocated t)"
proof -
  have c1: "length cs = 2 \<Longrightarrow> CheckInputChannel (world_of 5 task_in cs) 5 0
              = Inr (world_of 5 (task_in_running [1, 0]) (cs @ [Thread_Start AsyncReadBuffer]), True)"
    for cs
    by (simp add: CheckInputChannel_def find_task_lookup task_in_def task_in_running_def
        READ_def WRITE_def SIGNAL_INPUT_CHANNEL_MAX_USES_def start_worker_def numeral_2_eq_2)
  have r: "run world0 [CallInitDevice ev_in raw0 ''taskA'', CallCheckInputChannel 5 0]
     = Inr (world_of 5 (task_in_running [1, 0])
              [DAQmxLoadTask ''taskA'', DAQmxStartTask 1, Thread_Start AsyncReadBuffer])"
    by (simp add: InitDevice_ev_in c1)
  have f: "find_task (world_of 5 (task_in_running [1, 0])
              [DAQmxLoadTask ''taskA'', DAQmxStartTask 1, Thread_Start AsyncReadBuffer]) 5
     = Inr (Some (Some (task_in_running [1, 0])))"
    by (simp add: find_task_lookup)
  show ?thesis
    using reachable_tasks_allocated [OF r f] r f by simp
qed

text \<open>
  Property X2. What holds of claim C1: for a registered task, \<^verbatim>\<open>Read\<close> returns 0 at
  every index greater than or equal to the channel count, and at every index
  strictly greater than the channel count \<^verbatim>\<open>CheckInputChannel\<close>, \<^verbatim>\<open>Write\<close> and
  \<^verbatim>\<open>AcquireOutputChannel\<close> return false and \<^verbatim>\<open>ReleaseOutputChannel\<close> does nothing,
  all with the world unchanged.
\<close>

theorem index_above_count_fails:
  assumes "lookup_task w taskID = Some (Some t)"
  shows "(channel \<ge> channelsNumber t \<longrightarrow> Read w taskID channel = Inr (w, 0, [])) \<and>
         (channel > channelsNumber t \<longrightarrow>
            CheckInputChannel w taskID channel = Inr (w, False) \<and>
            Write w taskID channel v = Inr (w, False) \<and>
            AcquireOutputChannel w taskID channel = Inr (w, False) \<and>
            ReleaseOutputChannel w taskID channel = Inr w)"
  using find_task_lookup [OF assms]
  by (simp add: Read_def CheckInputChannel_def Write_def AcquireOutputChannel_def
      ReleaseOutputChannel_def)

theorem index_above_count_fails_witness:
  "lookup_task (world_of 5 (task_in_running [1, 0]) []) 5 = Some (Some (task_in_running [1, 0])) \<and>
   (2::uInt32) \<ge> channelsNumber (task_in_running [1, 0]) \<and>
   (3::uInt32) > channelsNumber (task_in_running [1, 0]) \<and>
   Read (world_of 5 (task_in_running [1, 0]) []) 5 2
     = Inr (world_of 5 (task_in_running [1, 0]) [], 0, []) \<and>
   CheckInputChannel (world_of 5 (task_in_running [1, 0]) []) 5 3
     = Inr (world_of 5 (task_in_running [1, 0]) [], False) \<and>
   Write (world_of 5 (task_in_running [1, 0]) []) 5 3 1
     = Inr (world_of 5 (task_in_running [1, 0]) [], False) \<and>
   AcquireOutputChannel (world_of 5 (task_in_running [1, 0]) []) 5 3
     = Inr (world_of 5 (task_in_running [1, 0]) [], False) \<and>
   ReleaseOutputChannel (world_of 5 (task_in_running [1, 0]) []) 5 3
     = Inr (world_of 5 (task_in_running [1, 0]) [])"
proof -
  have a: "(2::uInt32) \<ge> channelsNumber (task_in_running [1, 0])"
    "(3::uInt32) > channelsNumber (task_in_running [1, 0])"
    by (simp_all add: task_in_running_def task_in_def)
  show ?thesis
    using index_above_count_fails
        [where channel = 2 and v = 1, OF lookup_world_of [of 5 "task_in_running [1, 0]" "[]"]]
      index_above_count_fails
        [where channel = 3 and v = 1, OF lookup_world_of [of 5 "task_in_running [1, 0]" "[]"]] a
    by simp
qed

text \<open>
  Property X3. \<^verbatim>\<open>InitDevice\<close> on a name that loads and is not registered yet
  registers a task whose worker is not running and has no thread, and the only
  calls it makes are \<^verbatim>\<open>DAQmxLoadTask\<close> and \<^verbatim>\<open>DAQmxStartTask\<close>: no thread is started.
\<close>

theorem InitDevice_starts_no_worker:
  assumes "0 \<le> fst (env_load ev taskName)"
    and "0 \<le> fst (env_chans ev (snd (env_load ev taskName)))"
    and "0 \<le> env_start ev (snd (env_load ev taskName))"
    and "lookup_task w (uint (env_hash ev taskName)) = None"
  shows "\<exists>w1 t. InitDevice ev raw w taskName = Inr (w1, uint (env_hash ev taskName)) \<and>
           lookup_task w1 (uint (env_hash ev taskName)) = Some (Some t) \<and>
           \<not> isRunning t \<and> threadID t = THREAD_INVALID_HANDLE \<and>
           calls w1 = calls w @ [DAQmxLoadTask taskName, DAQmxStartTask (snd (env_load ev taskName))]"
proof -
  let ?h = "case tasksList w of None \<Rightarrow> [] | Some h0 \<Rightarrow> h0"
  let ?k = "env_hash ev taskName"
  have k: "(word_of_int (uint ?k) :: khint_t) = ?k" by simp
  have none: "kh_get ?h ?k = None"
    using assms(4)
    by (cases "tasksList w")
      (auto simp: lookup_task_def kh_get_def split: option.splits entry.splits)
  obtain t where t: "LoadTaskData ev raw taskName (calls w)
      = Inr (Some t, calls w @ [DAQmxLoadTask taskName, DAQmxStartTask (snd (env_load ev taskName))])"
    "\<not> isRunning t" "threadID t = THREAD_INVALID_HANDLE"
    using LoadTaskData_valid [OF assms(1-3), of raw "calls w"] by blast
  let ?w1 = "w\<lparr>tasksList := Some (kh_set_value ?h ?k (Pointer (Some t))),
                 calls := calls w @ [DAQmxLoadTask taskName,
                                     DAQmxStartTask (snd (env_load ev taskName))]\<rparr>"
  have i: "InitDevice ev raw w taskName = Inr (?w1, uint ?k)"
    using none t(1) by (simp add: InitDevice_def Let_def)
  have l: "lookup_task ?w1 (uint ?k) = Some (Some t)"
    by (simp add: lookup_task_def kh_get_def kh_set_value_def AList.update_conv')
  show ?thesis using i l t(2,3) by auto
qed

theorem InitDevice_starts_no_worker_witness:
  "0 \<le> fst (env_load ev_out ''taskB'') \<and>
   0 \<le> fst (env_chans ev_out (snd (env_load ev_out ''taskB''))) \<and>
   0 \<le> env_start ev_out (snd (env_load ev_out ''taskB'')) \<and>
   lookup_task world0 (uint (env_hash ev_out ''taskB'')) = None \<and>
   (\<exists>w1 t. InitDevice ev_out raw0 world0 ''taskB'' = Inr (w1, 5) \<and>
        lookup_task w1 5 = Some (Some t) \<and> \<not> isRunning t \<and>
        threadID t = THREAD_INVALID_HANDLE \<and>
        calls w1 = [DAQmxLoadTask ''taskB'', DAQmxStartTask 1])"
proof -
  have a: "0 \<le> fst (env_load ev_out ''taskB'')"
    "0 \<le> fst (env_chans ev_out (snd (env_load ev_out ''taskB'')))"
    "0 \<le> env_start ev_out (snd (env_load ev_out ''taskB''))"
    by (simp_all add: ev_out_def)
  have b: "lookup_task world0 (uint (env_hash ev_out ''taskB'')) = None"
    by (simp add: lookup_task_def world0_def)
  have k: "uint (env_hash ev_out ''taskB'') = 5" "snd (env_load ev_out ''taskB'') = 1"
    by (simp_all add: ev_out_def)
  have c: "calls world0 = []" by (simp add: world0_def)
  show ?thesis
    using InitDevice_starts_no_worker [OF a b, of raw0] a b unfolding k c by simp
qed

text \<open>
  Property X4. The Write-mode scenario: after \<^verbatim>\<open>InitDevice\<close>, reserving output
  channel 2 succeeds and starts the generation worker, writing 3.5 to channel 2
  succeeds, releasing channel 2 stops the worker, and a further write fails.
\<close>

theorem output_scenario:
  "InitDevice ev_out raw0 world0 ''taskB''
     = Inr (world_of 5 task_out [DAQmxLoadTask ''taskB'', DAQmxStartTask 1], 5) \<and>
   AcquireOutputChannel (world_of 5 task_out [DAQmxLoadTask ''taskB'', DAQmxStartTask 1]) 5 2
     = Inr (world_of 5 (task_out_running [0, 0, 1])
              [DAQmxLoadTask ''taskB'', DAQmxStartTask 1, Thread_Start AsyncWriteBuffer], True) \<and>
   Write (world_of 5 (task_out_running [0, 0, 1])
              [DAQmxLoadTask ''taskB'', DAQmxStartTask 1, Thread_Start AsyncWriteBuffer]) 5 2 (7 / 2)
     = Inr (world_of 5 ((task_out_running [0, 0, 1])\<lparr>channelValuesList := Block [0, 0, 7 / 2]\<rparr>)
              [DAQmxLoadTask ''taskB'', DAQmxStartTask 1, Thread_Start AsyncWriteBuffer], True) \<and>
   ReleaseOutputChannel
       (world_of 5 ((task_out_running [0, 0, 1])\<lparr>channelValuesList := Block [0, 0, 7 / 2]\<rparr>)
              [DAQmxLoadTask ''taskB'', DAQmxStartTask 1, Thread_Start AsyncWriteBuffer]) 5 2
     = Inr (world_of 5 ((task_out_running [0, 0, 0])
                          \<lparr>isRunning := False, channelValuesList := Block [0, 0, 7 / 2]\<rparr>)
              [DAQmxLoadTask ''taskB'', DAQmxStartTask 1, Thread_Start AsyncWriteBuffer,
               Thread_WaitExit (ThreadId 2)]) \<and>
   Write (world_of 5 ((task_out_running [0, 0, 0])
                          \<lparr>isRunning := False, channelValuesList := Block [0, 0, 7 / 2]\<rparr>)
              [DAQmxLoadTask ''taskB'', DAQmxStartTask 1, Thread_Start AsyncWriteBuffer,
               Thread_WaitExit (ThreadId 2)]) 5 2 1
     = Inr (world_of 5 ((task_out_running [0, 0, 0])
                          \<lparr>isRunning := False, channelValuesList := Block [0, 0, 7 / 2]\<rparr>)
              [DAQmxLoadTask ''taskB'', DAQmxStartTask 1, Thread_Start AsyncWriteBuffer,
               Thread_WaitExit (ThreadId 2)], False)"
proof -
  have a: "length cs = 2 \<Longrightarrow> AcquireOutputChannel (world_of 5 task_out cs) 5 2
     = Inr (world_of 5 (task_out_running [0, 0, 1]) (cs @ [Thread_Start AsyncWriteBuffer]), True)"
    for cs
    by (simp add: AcquireOutputChannel_def find_task_lookup task_out_def task_out_running_def
        READ_def WRITE_def start_worker_def)
  have b: "Write (world_of 5 (task_out_running [0, 0, 1]) cs) 5 2 (7 / 2)
     = Inr (world_of 5 ((task_out_running [0, 0, 1])\<lparr>channelValuesList := Block [0, 0, 7 / 2]\<rparr>)
              cs, True)" for cs
    by (simp add: Write_def find_task_lookup task_out_def task_out_running_def READ_def WRITE_def)
  have c: "ReleaseOutputChannel
       (world_of 5 ((task_out_running [0, 0, 1])\<lparr>channelValuesList := Block [0, 0, 7 / 2]\<rparr>) cs) 5 2
     = Inr (world_of 5 ((task_out_running [0, 0, 0])
                          \<lparr>isRunning := False, channelValuesList := Block [0, 0, 7 / 2]\<rparr>)
              (cs @ [Thread_WaitExit (ThreadId 2)]))" for cs
    by (simp add: ReleaseOutputChannel_def find_task_lookup CheckTask_def scan_uses_take
        task_out_def task_out_running_def)
  have d: "Write (world_of 5 ((task_out_running [0, 0, 0])
                          \<lparr>isRunning := False, channelValuesList := Block [0, 0, 7 / 2]\<rparr>) cs) 5 2 1
     = Inr (world_of 5 ((task_out_running [0, 0, 0])
                          \<lparr>isRunning := False, channelValuesList := Block [0, 0, 7 / 2]\<rparr>) cs, False)"
    for cs
    by (simp add: Write_def find_task_lookup task_out_def task_out_running_def)
  show ?thesis
    using a [of "[DAQmxLoadTask ''taskB'', DAQmxStartTask 1]"]
      b [of "[DAQmxLoadTask ''taskB'', DAQmxStartTask 1, Thread_Start AsyncWriteBuffer]"]
      c [of "[DAQmxLoadTask ''taskB'', DAQmxStartTask 1, Thread_Start AsyncWriteBuffer]"]
      d [of "[DAQmxLoadTask ''taskB'', DAQmxStartTask 1, Thread_Start AsyncWriteBuffer,
               Thread_WaitExit (ThreadId 2)]"]
    by (simp add: InitDevice_ev_out)
qed

text \<open>
  Property X5. What holds of claim C4: \<^verbatim>\<open>EndDevice\<close> on a registered task with a
  nonzero reservation slot changes nothing, in the registry, in the task or in the
  calls made, wherever khash keeps its entries.
\<close>

theorem EndDevice_reserved:
  assumes "lookup_task w taskID = Some (Some t)" and "task_allocated t"
    and "channelUsesList t = Block us" and "\<exists>u\<in>set us. u \<noteq> 0"
  shows "EndDevice ev w taskID = Inr w"
proof -
  obtain h where h: "tasksList w = Some h"
    "kh_get h (word_of_int taskID) = Some (Pointer (Some t))"
    using lookup_task_SomeD [OF assms(1)] by auto
  have len: "length us = unat (channelsNumber t)"
    using assms(2,3) by (simp add: task_allocated_def)
  show ?thesis
    using h CheckTask_Block [OF assms(3) len, of "calls w"] assms(4) put_task_same [OF assms(1)]
    by (simp add: EndDevice_def)
qed

theorem EndDevice_reserved_witness:
  "lookup_task (world_of 5 (task_in_running [0, 1]) []) 5 = Some (Some (task_in_running [0, 1])) \<and>
   task_allocated (task_in_running [0, 1]) \<and>
   channelUsesList (task_in_running [0, 1]) = Block [0, 1] \<and>
   (\<exists>u\<in>set [0::uInt32, 1]. u \<noteq> 0) \<and>
   EndDevice ev_in (world_of 5 (task_in_running [0, 1]) []) 5
     = Inr (world_of 5 (task_in_running [0, 1]) [])"
proof -
  have a: "task_allocated (task_in_running [0, 1])"
    by (simp add: task_allocated_def task_in_running_def task_in_def READ_def
        AQUISITION_BUFFER_LENGTH_def)
  have u: "channelUsesList (task_in_running [0, 1]) = Block [0, 1]"
    by (simp add: task_in_running_def)
  have nz: "\<exists>u\<in>set [0::uInt32, 1]. u \<noteq> 0" by simp
  show ?thesis
    using EndDevice_reserved
        [where ev = ev_in, OF lookup_world_of [of 5 "task_in_running [0, 1]" "[]"] a u nz] a u
    by simp
qed

end
